theory Spec2Isabelle
  imports Main
begin

section \<open>Task runner hooks (client/allocrunnerv2/taskrunner/task\_runner\_hooks.go)\<close>

text \<open>
  A shallow embedding of the five phase runners \<open>prestart\<close>, \<open>poststart\<close>, \<open>stop\<close>,
  \<open>updateHooks\<close> and \<open>kill\<close> of the task runner, and of \<open>initHooks\<close>, which composes the
  hook list. The task runner is a record that every runner takes and returns. Two fields
  of that record are not fields of the Go struct: \<open>heap\<close>, the store in which the
  \<open>*state.HookState\<close> objects live (the local state map holds pointers, and \<open>prestart\<close>
  writes through them), and \<open>trace\<close>, the list of calls the runner has made to its
  collaborators (hooks, persistence, the error logger), in the order they were made.
  Trace-level logging and the timing around it change neither the control flow nor the
  state and are left out.
\<close>

subsection \<open>Errors\<close>

text \<open>
  Modelled from the spec: \<open>structs.WrapRecoverable\<close> and the recoverable error type are
  not part of this file. The spec describes what \<open>WrapRecoverable\<close> returns as a recoverable
  failure that carries the original error and a message: \<open>RecoverableError msg err\<close>. The
  other errors are plain Go errors with a message, such as \<open>fmt.Errorf\<close> returns:
  \<open>ErrorString msg\<close>.
\<close>

datatype error =
    ErrorString string
  | RecoverableError string error

fun Error :: "error \<Rightarrow> string" where
  "Error (ErrorString m) = m"
| "Error (RecoverableError m e) = m"

text \<open>
  Modelled from the spec: the wrapper keeps the message and the original error, and its
  result is recoverable; a plain error is not.
\<close>

definition WrapRecoverable :: "string \<Rightarrow> error \<Rightarrow> error" where
  "WrapRecoverable msg err = RecoverableError msg err"

fun IsRecoverable :: "error \<Rightarrow> bool" where
  "IsRecoverable (ErrorString m) = False"
| "IsRecoverable (RecoverableError m e) = True"

fun Cause :: "error \<Rightarrow> error option" where
  "Cause (ErrorString m) = None"
| "Cause (RecoverableError m e) = Some e"

text \<open>
  The verbs of the format strings. \<open>%v\<close> of an error is its message. \<open>%q\<close> of a string
  is the string in double quotes as \<open>strconv.Quote\<close> writes it: a backslash before each
  double quote and each backslash, the short escapes for bell, backspace, form feed,
  newline, carriage return, tab and vertical tab, and \<open>\xNN\<close> with two lower-case
  hexadecimal digits for the other characters below the space and for delete. The
  characters from \<open>0x80\<close> on are left as they are, as Go leaves printable text in UTF-8.
\<close>

definition fmt_v :: "error \<Rightarrow> string" where
  "fmt_v err = Error err"

definition quote_escapes :: "(char \<times> string) list" where
  "quote_escapes =
     [(CHR 0x22, [CHR 0x5C, CHR 0x22]), (CHR 0x5C, [CHR 0x5C, CHR 0x5C]), (CHR 0x00, CHR 0x5C # ''x00''),
      (CHR 0x01, CHR 0x5C # ''x01''), (CHR 0x02, CHR 0x5C # ''x02''), (CHR 0x03, CHR 0x5C # ''x03''),
      (CHR 0x04, CHR 0x5C # ''x04''), (CHR 0x05, CHR 0x5C # ''x05''), (CHR 0x06, CHR 0x5C # ''x06''),
      (CHR 0x07, CHR 0x5C # ''a''), (CHR 0x08, CHR 0x5C # ''b''), (CHR 0x09, CHR 0x5C # ''t''),
      (CHR 0x0A, CHR 0x5C # ''n''), (CHR 0x0B, CHR 0x5C # ''v''), (CHR 0x0C, CHR 0x5C # ''f''),
      (CHR 0x0D, CHR 0x5C # ''r''), (CHR 0x0E, CHR 0x5C # ''x0e''), (CHR 0x0F, CHR 0x5C # ''x0f''),
      (CHR 0x10, CHR 0x5C # ''x10''), (CHR 0x11, CHR 0x5C # ''x11''), (CHR 0x12, CHR 0x5C # ''x12''),
      (CHR 0x13, CHR 0x5C # ''x13''), (CHR 0x14, CHR 0x5C # ''x14''), (CHR 0x15, CHR 0x5C # ''x15''),
      (CHR 0x16, CHR 0x5C # ''x16''), (CHR 0x17, CHR 0x5C # ''x17''), (CHR 0x18, CHR 0x5C # ''x18''),
      (CHR 0x19, CHR 0x5C # ''x19''), (CHR 0x1A, CHR 0x5C # ''x1a''), (CHR 0x1B, CHR 0x5C # ''x1b''),
      (CHR 0x1C, CHR 0x5C # ''x1c''), (CHR 0x1D, CHR 0x5C # ''x1d''), (CHR 0x1E, CHR 0x5C # ''x1e''),
      (CHR 0x1F, CHR 0x5C # ''x1f''), (CHR 0x7F, CHR 0x5C # ''x7f'')]"

definition fmt_q :: "string \<Rightarrow> string" where
  "fmt_q s =
     CHR 0x22 #
     concat (map (\<lambda>c. case map_of quote_escapes c of Some e \<Rightarrow> e | None \<Rightarrow> [c]) s) @
     [CHR 0x22]"

subsection \<open>The task, requests and responses\<close>

datatype Vault = VaultStanza string

datatype Template = TemplateStanza string

record Task =
  ShutdownDelay :: int
  Vault :: "Vault option"
  Templates :: "Template list"

type_synonym env = "string \<rightharpoonup> string"

text \<open>
  An execution context: the background context, which is never canceled, or a
  cancelable one with its current state.
\<close>

datatype Context = Background | WithCancel bool

fun canceled :: "Context \<Rightarrow> bool" where
  "canceled Background = False"
| "canceled (WithCancel c) = c"

text \<open>
  The hook data is opaque to the runner, which only tests it against \<open>nil\<close> and stores
  it: \<open>None\<close> is \<open>nil\<close>.
\<close>

type_synonym hook_data = string

record TaskPrestartRequest =
  Task :: Task
  TaskDir :: string
  TaskEnv :: env
  VaultToken :: string

record TaskPrestartResponse =
  Env :: env
  HookData :: "hook_data option"
  Done :: bool

datatype TaskPoststartRequest = TaskPoststartRequest

datatype TaskStopRequest = TaskStopRequest

datatype TaskUpdateRequest = TaskUpdateRequest string

datatype TaskKillRequest = TaskKillRequest

subsection \<open>Hooks\<close>

text \<open>
  A hook has a name and implements any subset of the five capability interfaces; the
  type assertion \<open>hook.(interfaces.TaskPrestartHook)\<close> succeeds when the field is
  \<open>Some\<close>. A hook method reads the context and the request and returns an error or
  fills the response. What a hook does besides is its own concern; it leaves the fields
  of the task runner alone.
\<close>

record TaskHook =
  Name :: string
  Prestart :: "(Context \<Rightarrow> TaskPrestartRequest \<Rightarrow> error + TaskPrestartResponse) option"
  Poststart :: "(Context \<Rightarrow> TaskPoststartRequest \<Rightarrow> error option) option"
  Stop :: "(Context \<Rightarrow> TaskStopRequest \<Rightarrow> error option) option"
  Update :: "(Context \<Rightarrow> TaskUpdateRequest \<Rightarrow> error option) option"
  Kill :: "(Context \<Rightarrow> TaskKillRequest \<Rightarrow> error option) option"

subsection \<open>Hook state\<close>

record HookState =
  Data :: "hook_data option"
  PrestartDone :: bool

text \<open>
  Modelled from the spec: \<open>state.HookState.Equal\<close> is not part of this file. The spec
  says the new state is equality-compared against the prior one; a \<open>nil\<close> pointer
  (\<open>None\<close>) equals only \<open>nil\<close>.
\<close>

definition HookState_Equal :: "HookState option \<Rightarrow> HookState option \<Rightarrow> bool" where
  "HookState_Equal h o' = (h = o')"

subsection \<open>The task runner\<close>

type_synonym ref = "nat option"

datatype event =
    PrestartCall string Context TaskPrestartRequest
  | PoststartCall string Context TaskPoststartRequest
  | StopCall string Context TaskStopRequest
  | UpdateCall string Context TaskUpdateRequest
  | KillCall string Context TaskKillRequest
  | PersistCall "string \<rightharpoonup> HookState option"
  | LogError string string error

text \<open>
  \<open>Hooks\<close> is \<open>tr.localState.Hooks\<close>, a map from hook names to pointers: \<open>None\<close> is the
  \<open>nil\<close> pointer and \<open>Some p\<close> points to the object \<open>heap ! p\<close>. \<open>allocTerminal\<close> is
  \<open>tr.Alloc().TerminalStatus()\<close>, \<open>vaultToken\<close> is \<open>tr.getVaultToken()\<close>, and
  \<open>persistResult\<close> is what the durable save answers for a given content of the map. The
  map itself is allocated.
\<close>

record TaskRunner =
  runnerHooks :: "TaskHook list"
  tr_Task :: Task
  allocTerminal :: bool
  taskDir :: string
  envBuilder :: env
  vaultToken :: string
  ctx :: Context
  heap :: "HookState list"
  Hooks :: "string \<rightharpoonup> ref"
  persistResult :: "(string \<rightharpoonup> HookState option) \<Rightarrow> error option"
  trace :: "event list"

text \<open>
  Modelled from the spec: the environment builder is not part of this file. The spec
  describes an accumulating map from names to values with two operations: building the
  current snapshot, and merging entries, where a later entry for a name overrides the
  earlier one and nothing is deleted.
\<close>

definition Build :: "env \<Rightarrow> env" where
  "Build b = b"

definition SetGenericEnv :: "env \<Rightarrow> env \<Rightarrow> env" where
  "SetGenericEnv envs b = b ++ envs"

text \<open>Reading through a pointer.\<close>

fun load :: "HookState list \<Rightarrow> ref \<Rightarrow> HookState option" where
  "load h None = None"
| "load h (Some p) = Some (h ! p)"

text \<open>The content of the local state map, as the durable save sees it.\<close>

definition snapshot :: "TaskRunner \<Rightarrow> (string \<rightharpoonup> HookState option)" where
  "snapshot tr = (\<lambda>name. map_option (load (heap tr)) (Hooks tr name))"

definition persistLocalState :: "TaskRunner \<Rightarrow> error option \<times> TaskRunner" where
  "persistLocalState tr =
     (persistResult tr (snapshot tr), tr\<lparr>trace := trace tr @ [PersistCall (snapshot tr)]\<rparr>)"

subsection \<open>prestart\<close>

text \<open>
  How a call of a runner ends: it returns (an error or \<open>nil\<close>), or it panics on a
  \<open>nil\<close> pointer.
\<close>

datatype outcome = Returned "error option" | Panicked

text \<open>
  Lines 116 to 120: the state object of the hook. When the name has no entry, an empty
  object is allocated and put in the map.
\<close>

definition hook_state_of :: "string \<Rightarrow> TaskRunner \<Rightarrow> ref \<times> TaskRunner" where
  "hook_state_of name tr =
     (case Hooks tr name of
        Some hookState \<Rightarrow> (hookState, tr)
      | None \<Rightarrow>
          (Some (length (heap tr)),
           tr\<lparr>heap := heap tr @ [\<lparr>Data = None, PrestartDone = False\<rparr>],
              Hooks := (Hooks tr)(name \<mapsto> Some (length (heap tr)))\<rparr>))"

text \<open>
  Lines 122 to 125: when the hook data of the response is not \<open>nil\<close>, the data and the
  \<open>Done\<close> flag are written through the pointer. Writing through a \<open>nil\<close> pointer panics:
  the result is \<open>None\<close>.
\<close>

definition set_hook_state ::
  "ref \<Rightarrow> TaskPrestartResponse \<Rightarrow> TaskRunner \<Rightarrow> TaskRunner option" where
  "set_hook_state hookState resp tr =
     (if HookData resp \<noteq> None
      then (case hookState of
              None \<Rightarrow> None
            | Some p \<Rightarrow>
                Some (tr\<lparr>heap := (heap tr)
                        [p := (heap tr ! p)\<lparr>Data := HookData resp,
                                            PrestartDone := Done resp\<rparr>]\<rparr>))
      else Some tr)"

text \<open>
  Lines 113 to 135, the block that stores the hook state: the two steps above, then the
  comparison of the object \<open>hookState\<close> points to with the object \<open>origHookState\<close> points
  to, both read now, and the durable save when they differ. The block yields \<open>None\<close> when
  the iteration goes on, and the way the call of \<open>prestart\<close> ends otherwise.
\<close>

definition store_hook_state ::
  "string \<Rightarrow> ref \<Rightarrow> TaskPrestartResponse \<Rightarrow> TaskRunner \<Rightarrow> outcome option \<times> TaskRunner" where
  "store_hook_state name origHookState resp tr =
     (case hook_state_of name tr of
        (hookState, tr1) \<Rightarrow>
          (case set_hook_state hookState resp tr1 of
             None \<Rightarrow> (Some Panicked, tr1)
           | Some tr2 \<Rightarrow>
               if \<not> HookState_Equal (load (heap tr2) hookState) (load (heap tr2) origHookState)
               then (case persistLocalState (tr2\<lparr>Hooks := (Hooks tr2)(name \<mapsto> hookState)\<rparr>) of
                       (Some err, tr3) \<Rightarrow> (Some (Returned (Some err)), tr3)
                     | (None, tr3) \<Rightarrow> (None, tr3))
               else (None, tr2)))"

text \<open>
  Lines 84 to 88 and 98: the request of one iteration, as the hook receives it.
\<close>

definition prestart_request :: "TaskRunner \<Rightarrow> TaskPrestartRequest" where
  "prestart_request tr =
     \<lparr>Task = tr_Task tr, TaskDir = taskDir tr, TaskEnv = Build (envBuilder tr),
      VaultToken = []\<rparr>\<lparr>VaultToken := vaultToken tr\<rparr>"

text \<open>
  Lines 90 to 93: the test on the state the map holds for the hook before the call:
  present, not \<open>nil\<close>, and done.
\<close>

definition prestart_done :: "TaskRunner \<Rightarrow> string \<Rightarrow> bool" where
  "prestart_done tr name =
     (case (case Hooks tr name of None \<Rightarrow> None | Some p \<Rightarrow> p) of
        None \<Rightarrow> False
      | Some p \<Rightarrow> PrestartDone (heap tr ! p))"

text \<open>
  One iteration of the loop of \<open>prestart\<close> (lines 75 to 146). It yields \<open>None\<close> when the
  loop goes on with the next hook, and the way the call of \<open>prestart\<close> ends otherwise.
  \<open>origHookState\<close> is the pointer read before the hook is called.
\<close>

definition prestart_hook :: "TaskHook \<Rightarrow> TaskRunner \<Rightarrow> outcome option \<times> TaskRunner" where
  "prestart_hook hook tr =
     (case Prestart hook of
        None \<Rightarrow> (None, tr)
      | Some pre \<Rightarrow>
          let name = Name hook;
              req = prestart_request tr;
              origHookState = (case Hooks tr name of None \<Rightarrow> None | Some p \<Rightarrow> p)
          in if prestart_done tr name then (None, tr)
             else
               let tr1 = tr\<lparr>trace := trace tr @ [PrestartCall name (ctx tr) req]\<rparr>
               in (case pre (ctx tr) req of
                     Inl err \<Rightarrow>
                       (Some (Returned (Some (WrapRecoverable
                          (''prestart hook '' @ fmt_q name @ '' failed: '' @ fmt_v err) err))),
                        tr1)
                   | Inr resp \<Rightarrow>
                       (case store_hook_state name origHookState resp tr1 of
                          (Some out, tr2) \<Rightarrow> (Some out, tr2)
                        | (None, tr2) \<Rightarrow>
                            (None,
                             if Env resp \<noteq> Map.empty
                             then tr2\<lparr>envBuilder := SetGenericEnv (Env resp) (envBuilder tr2)\<rparr>
                             else tr2))))"

fun prestart_loop :: "TaskHook list \<Rightarrow> TaskRunner \<Rightarrow> outcome \<times> TaskRunner" where
  "prestart_loop [] tr = (Returned None, tr)"
| "prestart_loop (hook # hooks) tr =
     (case prestart_hook hook tr of
        (Some out, tr') \<Rightarrow> (out, tr')
      | (None, tr') \<Rightarrow> prestart_loop hooks tr')"

definition prestart :: "TaskRunner \<Rightarrow> outcome \<times> TaskRunner" where
  "prestart tr =
     (if allocTerminal tr then (Returned None, tr)
      else prestart_loop (runnerHooks tr) tr)"

subsection \<open>poststart and stop\<close>

fun poststart_loop :: "TaskHook list \<Rightarrow> TaskRunner \<Rightarrow> error option \<times> TaskRunner" where
  "poststart_loop [] tr = (None, tr)"
| "poststart_loop (hook # hooks) tr =
     (case Poststart hook of
        None \<Rightarrow> poststart_loop hooks tr
      | Some post \<Rightarrow>
          let name = Name hook;
              req = TaskPoststartRequest;
              tr1 = tr\<lparr>trace := trace tr @ [PoststartCall name (ctx tr) req]\<rparr>
          in (case post (ctx tr) req of
                Some err \<Rightarrow>
                  (Some (ErrorString
                     (''poststart hook '' @ fmt_q name @ '' failed: '' @ fmt_v err)), tr1)
              | None \<Rightarrow> poststart_loop hooks tr1))"

definition poststart :: "TaskRunner \<Rightarrow> error option \<times> TaskRunner" where
  "poststart tr = poststart_loop (runnerHooks tr) tr"

fun stop_loop :: "TaskHook list \<Rightarrow> TaskRunner \<Rightarrow> error option \<times> TaskRunner" where
  "stop_loop [] tr = (None, tr)"
| "stop_loop (hook # hooks) tr =
     (case Stop hook of
        None \<Rightarrow> stop_loop hooks tr
      | Some post \<Rightarrow>
          let name = Name hook;
              req = TaskStopRequest;
              tr1 = tr\<lparr>trace := trace tr @ [StopCall name (ctx tr) req]\<rparr>
          in (case post (ctx tr) req of
                Some err \<Rightarrow>
                  (Some (ErrorString
                     (''stop hook '' @ fmt_q name @ '' failed: '' @ fmt_v err)), tr1)
              | None \<Rightarrow> stop_loop hooks tr1))"

definition stop :: "TaskRunner \<Rightarrow> error option \<times> TaskRunner" where
  "stop tr = stop_loop (runnerHooks tr) tr"

subsection \<open>updateHooks and kill\<close>

fun updateHooks_loop :: "TaskHook list \<Rightarrow> TaskRunner \<Rightarrow> TaskRunner" where
  "updateHooks_loop [] tr = tr"
| "updateHooks_loop (hook # hooks) tr =
     (case Update hook of
        None \<Rightarrow> updateHooks_loop hooks tr
      | Some upd \<Rightarrow>
          let name = Name hook;
              req = TaskUpdateRequest (vaultToken tr);
              tr1 = tr\<lparr>trace := trace tr @ [UpdateCall name (ctx tr) req]\<rparr>;
              tr2 = (case upd (ctx tr) req of
                       Some err \<Rightarrow>
                         tr1\<lparr>trace := trace tr1 @ [LogError ''update hook failed'' name err]\<rparr>
                     | None \<Rightarrow> tr1)
          in updateHooks_loop hooks tr2)"

definition updateHooks :: "TaskRunner \<Rightarrow> TaskRunner" where
  "updateHooks tr = updateHooks_loop (runnerHooks tr) tr"

fun kill_loop :: "TaskHook list \<Rightarrow> TaskRunner \<Rightarrow> TaskRunner" where
  "kill_loop [] tr = tr"
| "kill_loop (hook # hooks) tr =
     (case Kill hook of
        None \<Rightarrow> kill_loop hooks tr
      | Some upd \<Rightarrow>
          let name = Name hook;
              req = TaskKillRequest;
              tr1 = tr\<lparr>trace := trace tr @ [KillCall name Background req]\<rparr>;
              tr2 = (case upd Background req of
                       Some err \<Rightarrow>
                         tr1\<lparr>trace := trace tr1 @ [LogError ''kill hook failed'' name err]\<rparr>
                     | None \<Rightarrow> tr1)
          in kill_loop hooks tr2)"

definition kill :: "TaskRunner \<Rightarrow> TaskRunner" where
  "kill tr = kill_loop (runnerHooks tr) tr"

subsection \<open>initHooks\<close>

text \<open>
  The constructors of the hooks are not part of this file and are taken as parameters.
  Each is given the part of the task it is built from; its other arguments (the client
  configuration, the logger, the Vault client, the task runner itself) are the same for
  every call and belong to the parameter.
\<close>

record constructors =
  newValidateHook :: TaskHook
  newTaskDirHook :: TaskHook
  newArtifactHook :: TaskHook
  newShutdownDelayHook :: "int \<Rightarrow> TaskHook"
  newVaultHook :: "Vault \<Rightarrow> TaskHook"
  newTemplateHook :: "Template list \<Rightarrow> TaskHook"

definition initHooks :: "constructors \<Rightarrow> TaskRunner \<Rightarrow> TaskRunner" where
  "initHooks c tr =
     (let task = tr_Task tr;
          tr1 = tr\<lparr>runnerHooks :=
                   [newValidateHook c, newTaskDirHook c, newArtifactHook c,
                    newShutdownDelayHook c (ShutdownDelay task)]\<rparr>;
          tr2 = (case Vault task of
                   Some v \<Rightarrow> tr1\<lparr>runnerHooks := runnerHooks tr1 @ [newVaultHook c v]\<rparr>
                 | None \<Rightarrow> tr1)
      in if length (Templates task) \<noteq> 0
         then tr2\<lparr>runnerHooks := runnerHooks tr2 @ [newTemplateHook c (Templates task)]\<rparr>
         else tr2)"

subsection \<open>Reading the trace\<close>

text \<open>The events a run has added to the trace: the run took \<open>tr\<close> to \<open>tr'\<close>.\<close>

definition events :: "TaskRunner \<Rightarrow> TaskRunner \<Rightarrow> event list" where
  "events tr tr' = drop (length (trace tr)) (trace tr')"

text \<open>The name of the hook an event calls, if it is a call of a hook.\<close>

fun hook_called :: "event \<Rightarrow> string option" where
  "hook_called (PrestartCall n c r) = Some n"
| "hook_called (PoststartCall n c r) = Some n"
| "hook_called (StopCall n c r) = Some n"
| "hook_called (UpdateCall n c r) = Some n"
| "hook_called (KillCall n c r) = Some n"
| "hook_called (PersistCall m) = None"
| "hook_called (LogError m n e) = None"

fun is_persist :: "event \<Rightarrow> bool" where
  "is_persist (PersistCall m) = True"
| "is_persist ev = False"

text \<open>What a call of a \<open>Prestart\<close> hook sees for a variable in the environment of its request.\<close>

fun env_seen :: "string \<Rightarrow> event \<Rightarrow> (string \<times> string option) option" where
  "env_seen k (PrestartCall n c r) = Some (n, TaskEnv r k)"
| "env_seen k ev = None"

text \<open>
  An iteration for \<open>hook\<close> in the state \<open>tr\<close> calls the hook, and the response of that
  call carries an entry for the variable \<open>k\<close>.
\<close>

definition returns_entry :: "string \<Rightarrow> TaskHook \<Rightarrow> TaskRunner \<Rightarrow> bool" where
  "returns_entry k hook tr =
     (case Prestart hook of
        None \<Rightarrow> False
      | Some pre \<Rightarrow>
          \<not> prestart_done tr (Name hook) \<and>
          (case pre (ctx tr) (prestart_request tr) of
             Inl err \<Rightarrow> False
           | Inr resp \<Rightarrow> Env resp k \<noteq> None))"

text \<open>
  While the loop of \<open>prestart\<close> runs through \<open>hooks\<close> from the state \<open>tr\<close>, one of the hooks
  is called and returns an entry for \<open>k\<close>. A hook that is skipped, because it does not
  implement \<open>Prestart\<close> or is done, and a hook the loop does not reach, returns nothing.
\<close>

fun overridden :: "string \<Rightarrow> TaskHook list \<Rightarrow> TaskRunner \<Rightarrow> bool" where
  "overridden k [] tr = False"
| "overridden k (hook # hooks) tr =
     (returns_entry k hook tr \<or>
      (case prestart_hook hook tr of
         (Some out, tr') \<Rightarrow> False
       | (None, tr') \<Rightarrow> overridden k hooks tr'))"

subsection \<open>What each pass is expected to add to the trace\<close>

text \<open>
  These definitions follow the words of the specification, not the code, and are what
  the runners are compared with. A best-effort pass (update, kill) calls each hook that
  implements the capability and logs its error if it returns one.
\<close>

definition update_events :: "TaskRunner \<Rightarrow> TaskHook \<Rightarrow> event list" where
  "update_events tr hook =
     (case Update hook of
        None \<Rightarrow> []
      | Some upd \<Rightarrow>
          UpdateCall (Name hook) (ctx tr) (TaskUpdateRequest (vaultToken tr)) #
          (case upd (ctx tr) (TaskUpdateRequest (vaultToken tr)) of
             None \<Rightarrow> []
           | Some err \<Rightarrow> [LogError ''update hook failed'' (Name hook) err]))"

definition kill_events :: "TaskHook \<Rightarrow> event list" where
  "kill_events hook =
     (case Kill hook of
        None \<Rightarrow> []
      | Some upd \<Rightarrow>
          KillCall (Name hook) Background TaskKillRequest #
          (case upd Background TaskKillRequest of
             None \<Rightarrow> []
           | Some err \<Rightarrow> [LogError ''kill hook failed'' (Name hook) err]))"

text \<open>The context of a call of a \<open>Kill\<close> hook.\<close>

fun kill_context :: "event \<Rightarrow> Context option" where
  "kill_context (KillCall n c r) = Some c"
| "kill_context ev = None"

text \<open>
  A fail-fast pass (post-start, stop) calls each hook with an empty request; a hook is
  fine when it does not implement the capability or returns no error.
\<close>

definition poststart_call :: "TaskRunner \<Rightarrow> TaskHook \<Rightarrow> event" where
  "poststart_call tr hook = PoststartCall (Name hook) (ctx tr) TaskPoststartRequest"

definition poststart_ok :: "TaskRunner \<Rightarrow> TaskHook \<Rightarrow> bool" where
  "poststart_ok tr hook =
     (case Poststart hook of
        None \<Rightarrow> True
      | Some post \<Rightarrow> post (ctx tr) TaskPoststartRequest = None)"

definition stop_call :: "TaskRunner \<Rightarrow> TaskHook \<Rightarrow> event" where
  "stop_call tr hook = StopCall (Name hook) (ctx tr) TaskStopRequest"

definition stop_ok :: "TaskRunner \<Rightarrow> TaskHook \<Rightarrow> bool" where
  "stop_ok tr hook =
     (case Stop hook of
        None \<Rightarrow> True
      | Some post \<Rightarrow> post (ctx tr) TaskStopRequest = None)"

subsection \<open>Example runners\<close>

text \<open>
  Small task runners on which the theorems below are instantiated: a task without
  secret stanza or templates, an empty local state, a persistence that succeeds, and
  hooks that answer the same whatever they are asked.
\<close>

definition ex_task :: Task where
  "ex_task = \<lparr>ShutdownDelay = 0, Vault = None, Templates = []\<rparr>"

definition ex_runner :: "TaskHook list \<Rightarrow> TaskRunner" where
  "ex_runner hooks =
     \<lparr>runnerHooks = hooks, tr_Task = ex_task, allocTerminal = False,
      taskDir = ''/alloc/web'', envBuilder = Map.empty, vaultToken = ''s.token'',
      ctx = WithCancel False, heap = [], Hooks = Map.empty,
      persistResult = (\<lambda>m. None), trace = []\<rparr>"

definition ex_prestart_hook :: "string \<Rightarrow> error + TaskPrestartResponse \<Rightarrow> TaskHook" where
  "ex_prestart_hook name res =
     \<lparr>Name = name, Prestart = Some (\<lambda>c req. res), Poststart = None, Stop = None,
      Update = None, Kill = None\<rparr>"

definition ex_notify_hook :: "string \<Rightarrow> error option \<Rightarrow> TaskHook" where
  "ex_notify_hook name res =
     \<lparr>Name = name, Prestart = None, Poststart = Some (\<lambda>c req. res),
      Stop = Some (\<lambda>c req. res), Update = Some (\<lambda>c req. res),
      Kill = Some (\<lambda>c req. res)\<rparr>"

text \<open>
  A runner that resumes an allocation: hook \<open>a\<close> is recorded as done, hook \<open>b\<close> has
  not run.
\<close>

definition ex_resumed :: TaskRunner where
  "ex_resumed =
     (ex_runner
        [ex_prestart_hook ''a'' (Inl (ErrorString ''boom'')),
         ex_prestart_hook ''b'' (Inr \<lparr>Env = Map.empty, HookData = None, Done = False\<rparr>)])
     \<lparr>heap := [\<lparr>Data = Some ''d'', PrestartDone = True\<rparr>], Hooks := [''a'' \<mapsto> Some 0]\<rparr>"

definition ex_hook_a :: TaskHook where
  "ex_hook_a = ex_prestart_hook ''a''
     (Inr \<lparr>Env = [''K'' \<mapsto> ''V''], HookData = Some ''d'', Done = True\<rparr>)"

definition ex_hook_b :: TaskHook where
  "ex_hook_b = ex_prestart_hook ''b'' (Inl (ErrorString ''boom''))"

definition ex_hook_c :: TaskHook where
  "ex_hook_c = ex_prestart_hook ''c''
     (Inr \<lparr>Env = Map.empty, HookData = None, Done = True\<rparr>)"

definition ex_hook_w :: TaskHook where
  "ex_hook_w = ex_prestart_hook ''w''
     (Inr \<lparr>Env = [''K'' \<mapsto> ''W''], HookData = None, Done = False\<rparr>)"

definition ex_failing :: TaskRunner where
  "ex_failing = ex_runner [ex_hook_a, ex_hook_b, ex_hook_c]"

definition ex_disk_full :: TaskRunner where
  "ex_disk_full =
     (ex_runner [ex_hook_a, ex_hook_c])\<lparr>persistResult := (\<lambda>m. Some (ErrorString ''disk full''))\<rparr>"

text \<open>
  Hook \<open>h\<close> has run before without finishing; this time it returns new data and is
  done.
\<close>

definition ex_stale :: TaskRunner where
  "ex_stale =
     (ex_runner
        [ex_prestart_hook ''h''
           (Inr \<lparr>Env = Map.empty, HookData = Some ''new'', Done = True\<rparr>)])
     \<lparr>heap := [\<lparr>Data = Some ''old'', PrestartDone = False\<rparr>], Hooks := [''h'' \<mapsto> Some 0]\<rparr>"

text \<open>Three hooks, the first two of which set the same variable.\<close>

definition ex_override :: TaskRunner where
  "ex_override = ex_runner [ex_hook_a, ex_hook_w, ex_hook_c]"

definition ex_visible :: TaskRunner where
  "ex_visible = ex_runner [ex_hook_a, ex_hook_c, ex_hook_w]"

text \<open>
  Between \<open>a\<close> and \<open>c\<close> stands hook \<open>w\<close>, which is recorded as done: it would return
  \<open>K = W\<close> if it were called.
\<close>

definition ex_skipped :: TaskRunner where
  "ex_skipped =
     (ex_runner [ex_hook_a, ex_hook_w, ex_hook_c])
     \<lparr>heap := [\<lparr>Data = None, PrestartDone = True\<rparr>], Hooks := [''w'' \<mapsto> Some 0]\<rparr>"

text \<open>A hook that reports it is done and returns no data.\<close>

definition ex_no_data :: TaskRunner where
  "ex_no_data = ex_runner [ex_hook_c]"

text \<open>
  A runner whose context is already canceled, with a hook \<open>x\<close> that fails in every
  phase but pre-start, and one without a failing hook.
\<close>

definition ex_notify :: TaskRunner where
  "ex_notify =
     (ex_runner
        [ex_hook_a, ex_notify_hook ''x'' (Some (ErrorString ''down'')), ex_notify_hook ''y'' None])
     \<lparr>ctx := WithCancel True\<rparr>"

definition ex_quiet :: TaskRunner where
  "ex_quiet = ex_runner [ex_hook_a, ex_notify_hook ''y'' None]"

text \<open>Constructors that build hooks with six different names, and a task with both stanzas.\<close>

definition ex_constructors :: constructors where
  "ex_constructors =
     \<lparr>newValidateHook = ex_notify_hook ''validate'' None,
      newTaskDirHook = ex_notify_hook ''task_dir'' None,
      newArtifactHook = ex_notify_hook ''artifacts'' None,
      newShutdownDelayHook = (\<lambda>delay. ex_notify_hook ''shutdown-delay'' None),
      newVaultHook = (\<lambda>stanza. ex_notify_hook ''vault'' None),
      newTemplateHook = (\<lambda>templates. ex_notify_hook ''template'' None)\<rparr>"

definition ex_task_full :: Task where
  "ex_task_full =
     \<lparr>ShutdownDelay = 5, Vault = Some (VaultStanza ''policy''),
      Templates = [TemplateStanza ''cfg'']\<rparr>"

lemmas ex_hook_defs = ex_hook_a_def ex_hook_b_def ex_hook_c_def ex_hook_w_def

lemmas ex_defs =
  ex_task_def ex_runner_def ex_prestart_hook_def ex_notify_hook_def

lemmas store_defs =
  store_hook_state_def hook_state_of_def set_hook_state_def persistLocalState_def

lemmas prestart_defs =
  prestart_def prestart_hook_def prestart_done_def prestart_request_def
  store_defs snapshot_def HookState_Equal_def
  Build_def SetGenericEnv_def WrapRecoverable_def Let_def

section \<open>Properties\<close>

subsection \<open>The loop of prestart\<close>

lemma prestart_hook_abort_not_nil:
  "prestart_hook hook tr = (Some out, tr') \<Longrightarrow> out \<noteq> Returned None"
  by (auto simp: prestart_hook_def store_defs Let_def
      split: option.splits sum.splits if_splits prod.splits)

lemma prestart_loop_append:
  "prestart_loop pre tr = (Returned None, tr1) \<Longrightarrow>
   prestart_loop (pre @ rest) tr = prestart_loop rest tr1"
proof (induction pre arbitrary: tr)
  case Nil
  then show ?case by simp
next
  case (Cons h pre)
  obtain r tr' where step: "prestart_hook h tr = (r, tr')" by (cases "prestart_hook h tr")
  show ?case
  proof (cases r)
    case None
    with step Cons show ?thesis by simp
  next
    case (Some out)
    with step Cons.prems have "out = Returned None" by simp
    with step Some prestart_hook_abort_not_nil show ?thesis by blast
  qed
qed

lemma update_other_cell:
  "PrestartDone (h ! p) \<Longrightarrow> \<not> PrestartDone (h ! q) \<Longrightarrow> h[q := v] ! p = h ! p"
  by (cases "p = q") auto

text \<open>
  An entry that is done stays as it is through one iteration, whatever hook the
  iteration is for, and no hook of that name is called.
\<close>

lemma prestart_hook_keeps_done:
  assumes "Hooks tr name = Some (Some p)" and "p < length (heap tr)"
    and "PrestartDone (heap tr ! p)" and "prestart_hook hook tr = (r, tr')"
  shows "Hooks tr' name = Some (Some p) \<and> p < length (heap tr') \<and>
         heap tr' ! p = heap tr ! p \<and>
         (\<exists>evs. trace tr' = trace tr @ evs \<and> Some name \<notin> set (map hook_called evs))"
  using assms
  by (auto simp: prestart_hook_def store_defs Let_def
      prestart_done_def HookState_Equal_def nth_append update_other_cell
      split: option.splits sum.splits if_splits prod.splits)

lemma prestart_loop_keeps_done:
  assumes "Hooks tr name = Some (Some p)" and "p < length (heap tr)"
    and "PrestartDone (heap tr ! p)" and "prestart_loop hooks tr = (out, tr')"
  shows "Hooks tr' name = Some (Some p) \<and> p < length (heap tr') \<and>
         heap tr' ! p = heap tr ! p \<and>
         (\<exists>evs. trace tr' = trace tr @ evs \<and> Some name \<notin> set (map hook_called evs))"
  using assms
proof (induction hooks arbitrary: tr)
  case Nil
  then show ?case by simp
next
  case (Cons h hooks)
  obtain r tr1 where step: "prestart_hook h tr = (r, tr1)" by (cases "prestart_hook h tr")
  note one = prestart_hook_keeps_done [OF Cons.prems(1,2,3) step]
  show ?case
  proof (cases r)
    case None
    with step Cons.prems(4) have rest: "prestart_loop hooks tr1 = (out, tr')" by simp
    from one Cons.prems(3) have d: "PrestartDone (heap tr1 ! p)" by simp
    from Cons.IH [OF _ _ d rest] one show ?thesis by auto
  next
    case (Some a)
    with step Cons.prems(4) have "tr' = tr1" by simp
    with one show ?thesis by simp
  qed
qed

subsection \<open>Skipping hooks that are done\<close>

text \<open>
  C1. If the local state map holds, for a name, an entry whose \<open>PrestartDone\<close> is set when
  \<open>prestart\<close> runs, then an iteration for a hook of that name does nothing and the loop
  goes on with the next hook; over the whole call no hook of that name is called, and
  the entry and the state it points to are the same afterwards.
\<close>

theorem prestart_skips_done_hook:
  assumes "Hooks tr name = Some (Some p)" and "p < length (heap tr)"
    and "PrestartDone (heap tr ! p)"
  shows "(\<forall>hook hooks. Name hook = name \<longrightarrow>
            prestart_loop (hook # hooks) tr = prestart_loop hooks tr) \<and>
         Hooks (snd (prestart tr)) name = Some (Some p) \<and>
         heap (snd (prestart tr)) ! p = heap tr ! p \<and>
         Some name \<notin> set (map hook_called (events tr (snd (prestart tr))))"
proof -
  have skip: "\<forall>hook hooks. Name hook = name \<longrightarrow>
            prestart_loop (hook # hooks) tr = prestart_loop hooks tr"
    using assms by (simp add: prestart_hook_def prestart_done_def split: option.splits)
  have pass: "Hooks (snd (prestart tr)) name = Some (Some p) \<and>
         heap (snd (prestart tr)) ! p = heap tr ! p \<and>
         Some name \<notin> set (map hook_called (events tr (snd (prestart tr))))"
  proof (cases "allocTerminal tr")
    case True
    with assms show ?thesis by (simp add: prestart_def events_def)
  next
    case False
    obtain out tr' where run: "prestart_loop (runnerHooks tr) tr = (out, tr')"
      by (cases "prestart_loop (runnerHooks tr) tr")
    from prestart_loop_keeps_done [OF assms run] False run
    show ?thesis by (auto simp: prestart_def events_def)
  qed
  from skip pass show ?thesis by simp
qed

theorem prestart_skips_done_hook_witness:
  "Hooks ex_resumed ''a'' = Some (Some 0) \<and> 0 < length (heap ex_resumed) \<and>
   PrestartDone (heap ex_resumed ! 0) \<and>
   prestart_loop (ex_prestart_hook ''a'' (Inl (ErrorString ''boom'')) # []) ex_resumed =
     prestart_loop [] ex_resumed \<and>
   Hooks (snd (prestart ex_resumed)) ''a'' = Some (Some 0) \<and>
   heap (snd (prestart ex_resumed)) ! 0 = heap ex_resumed ! 0 \<and>
   Some ''a'' \<notin> set (map hook_called (events ex_resumed (snd (prestart ex_resumed)))) \<and>
   fst (prestart ex_resumed) = Returned None \<and>
   map hook_called (events ex_resumed (snd (prestart ex_resumed))) = [Some ''b'', None]"
proof -
  have h1: "Hooks ex_resumed ''a'' = Some (Some 0)"
    by (simp add: ex_resumed_def ex_defs)
  have h2: "0 < length (heap ex_resumed)"
    by (simp add: ex_resumed_def ex_defs)
  have h3: "PrestartDone (heap ex_resumed ! 0)"
    by (simp add: ex_resumed_def ex_defs)
  have n: "Name (ex_prestart_hook ''a'' (Inl (ErrorString ''boom''))) = ''a''"
    by (simp add: ex_defs)
  have run: "fst (prestart ex_resumed) = Returned None \<and>
      map hook_called (events ex_resumed (snd (prestart ex_resumed))) = [Some ''b'', None]"
    by (simp add: ex_resumed_def ex_defs prestart_defs events_def)
  from prestart_skips_done_hook [OF h1 h2 h3] h1 h2 h3 n run show ?thesis by blast
qed

subsection \<open>A terminal allocation\<close>

text \<open>
  C9. If the allocation is terminal when \<open>prestart\<close> is called, \<open>prestart\<close> returns \<open>nil\<close>
  and the task runner is as before: no call is added to the trace, and the local state
  map and the environment builder are untouched.
\<close>

theorem prestart_terminal_alloc:
  "allocTerminal tr \<Longrightarrow> prestart tr = (Returned None, tr)"
  by (simp add: prestart_def)

theorem prestart_terminal_alloc_witness:
  "allocTerminal (ex_resumed\<lparr>allocTerminal := True\<rparr>) \<and>
   prestart (ex_resumed\<lparr>allocTerminal := True\<rparr>) =
     (Returned None, ex_resumed\<lparr>allocTerminal := True\<rparr>)"
  using prestart_terminal_alloc [of "ex_resumed\<lparr>allocTerminal := True\<rparr>"]
  by simp

subsection \<open>Errors end the pass\<close>

lemma prestart_hook_error:
  assumes "Prestart hook = Some f" and "\<not> prestart_done tr (Name hook)"
    and "f (ctx tr) (prestart_request tr) = Inl err"
  shows "prestart_hook hook tr =
     (Some (Returned (Some (WrapRecoverable
        (''prestart hook '' @ fmt_q (Name hook) @ '' failed: '' @ fmt_v err) err))),
      tr\<lparr>trace := trace tr @ [PrestartCall (Name hook) (ctx tr) (prestart_request tr)]\<rparr>)"
  using assms by (simp add: prestart_hook_def Let_def)

lemma prestart_hook_persist_error:
  assumes "Prestart hook = Some f" and "\<not> prestart_done tr (Name hook)"
    and "f (ctx tr) (prestart_request tr) = Inr resp"
    and "prestart_hook hook tr = (r, tr')"
    and "last (trace tr') = PersistCall m" and "persistResult tr m = Some perr"
  shows "r = Some (Returned (Some perr)) \<and>
         trace tr' = trace tr @
           [PrestartCall (Name hook) (ctx tr) (prestart_request tr), PersistCall m]"
  using assms
  by (auto simp: prestart_hook_def store_defs Let_def
      split: option.splits if_splits prod.splits)

text \<open>
  C3. Let the loop of \<open>prestart\<close> reach a hook that implements \<open>Prestart\<close> and is not done.
  If the hook returns an error, \<open>prestart\<close> returns at once: the error returned is
  recoverable, carries the hook's error and a message with the hook's name, and the call
  of the failing hook is the last event of the trace, so no later hook is called. If the
  hook succeeds and the durable save made for it answers an error, \<open>prestart\<close> returns
  that error at once, the save being the last event.
\<close>

theorem prestart_fail_fast:
  assumes "\<not> allocTerminal tr" and "runnerHooks tr = pre @ hook # post"
    and "prestart_loop pre tr = (Returned None, tr1)"
    and "Prestart hook = Some f" and "\<not> prestart_done tr1 (Name hook)"
  shows
    "(\<forall>err. f (ctx tr1) (prestart_request tr1) = Inl err \<longrightarrow>
        prestart tr =
          (Returned (Some (WrapRecoverable
             (''prestart hook '' @ fmt_q (Name hook) @ '' failed: '' @ fmt_v err) err)),
           tr1\<lparr>trace := trace tr1 @
                  [PrestartCall (Name hook) (ctx tr1) (prestart_request tr1)]\<rparr>) \<and>
        IsRecoverable (WrapRecoverable
           (''prestart hook '' @ fmt_q (Name hook) @ '' failed: '' @ fmt_v err) err) \<and>
        Cause (WrapRecoverable
           (''prestart hook '' @ fmt_q (Name hook) @ '' failed: '' @ fmt_v err) err) = Some err) \<and>
     (\<forall>resp r tr2 m perr.
        f (ctx tr1) (prestart_request tr1) = Inr resp \<longrightarrow>
        prestart_hook hook tr1 = (r, tr2) \<longrightarrow>
        last (trace tr2) = PersistCall m \<longrightarrow> persistResult tr1 m = Some perr \<longrightarrow>
        prestart tr = (Returned (Some perr), tr2) \<and>
        trace tr2 = trace tr1 @
          [PrestartCall (Name hook) (ctx tr1) (prestart_request tr1), PersistCall m])"
proof -
  have run: "prestart tr = prestart_loop (hook # post) tr1"
    using assms(1,2,3) by (simp add: prestart_def prestart_loop_append)
  have a: "\<forall>err. f (ctx tr1) (prestart_request tr1) = Inl err \<longrightarrow>
        prestart tr =
          (Returned (Some (WrapRecoverable
             (''prestart hook '' @ fmt_q (Name hook) @ '' failed: '' @ fmt_v err) err)),
           tr1\<lparr>trace := trace tr1 @
                  [PrestartCall (Name hook) (ctx tr1) (prestart_request tr1)]\<rparr>)"
    using run prestart_hook_error [OF assms(4,5)] by simp
  have b: "\<forall>resp r tr2 m perr.
        f (ctx tr1) (prestart_request tr1) = Inr resp \<longrightarrow>
        prestart_hook hook tr1 = (r, tr2) \<longrightarrow>
        last (trace tr2) = PersistCall m \<longrightarrow> persistResult tr1 m = Some perr \<longrightarrow>
        prestart tr = (Returned (Some perr), tr2) \<and>
        trace tr2 = trace tr1 @
          [PrestartCall (Name hook) (ctx tr1) (prestart_request tr1), PersistCall m]"
    using run prestart_hook_persist_error [OF assms(4,5)] by fastforce
  from a b show ?thesis by (simp add: WrapRecoverable_def)
qed


theorem prestart_fail_fast_witness:
  "\<not> allocTerminal ex_failing \<and>
   runnerHooks ex_failing = [ex_hook_a] @ ex_hook_b # [ex_hook_c] \<and>
   prestart_loop [ex_hook_a] ex_failing =
     (Returned None, snd (prestart_loop [ex_hook_a] ex_failing)) \<and>
   \<not> prestart_done (snd (prestart_loop [ex_hook_a] ex_failing)) (Name ex_hook_b) \<and>
   fst (prestart ex_failing) =
     Returned (Some (RecoverableError
       (''prestart hook '' @ [CHR 0x22] @ ''b'' @ [CHR 0x22] @ '' failed: boom'')
       (ErrorString ''boom''))) \<and>
   map hook_called (events ex_failing (snd (prestart ex_failing))) =
     [Some ''a'', None, Some ''b''] \<and>
   \<not> allocTerminal ex_disk_full \<and>
   runnerHooks ex_disk_full = [] @ ex_hook_a # [ex_hook_c] \<and>
   \<not> prestart_done ex_disk_full (Name ex_hook_a) \<and>
   last (trace (snd (prestart_hook ex_hook_a ex_disk_full))) =
     PersistCall (snapshot (snd (prestart_hook ex_hook_a ex_disk_full))) \<and>
   persistResult ex_disk_full (snapshot (snd (prestart_hook ex_hook_a ex_disk_full))) =
     Some (ErrorString ''disk full'') \<and>
   prestart ex_disk_full =
     (Returned (Some (ErrorString ''disk full'')), snd (prestart_hook ex_hook_a ex_disk_full)) \<and>
   map hook_called (events ex_disk_full (snd (prestart ex_disk_full))) = [Some ''a'', None]"
proof -
  let ?f = "\<lambda>c req. Inl (ErrorString ''boom'') :: error + TaskPrestartResponse"
  let ?g = "\<lambda>c req. Inr \<lparr>Env = [''K'' \<mapsto> ''V''], HookData = Some ''d'', Done = True\<rparr>
              :: error + TaskPrestartResponse"
  let ?tr1 = "snd (prestart_loop [ex_hook_a] ex_failing)"
  let ?tr2 = "snd (prestart_hook ex_hook_a ex_disk_full)"
  have a1: "\<not> allocTerminal ex_failing"
    by (simp add: ex_failing_def ex_defs)
  have a2: "runnerHooks ex_failing = [ex_hook_a] @ ex_hook_b # [ex_hook_c]"
    by (simp add: ex_failing_def ex_defs)
  have a3: "prestart_loop [ex_hook_a] ex_failing = (Returned None, ?tr1)"
    by (simp add: ex_failing_def ex_defs ex_hook_defs prestart_defs)
  have a4: "Prestart ex_hook_b = Some ?f"
    by (simp add: ex_hook_defs ex_defs)
  have a5: "\<not> prestart_done ?tr1 (Name ex_hook_b)"
    by (simp add: ex_failing_def ex_defs ex_hook_defs prestart_defs)
  have a6: "?f (ctx ?tr1) (prestart_request ?tr1) = Inl (ErrorString ''boom'')"
    by simp
  have ev1: "map hook_called (events ex_failing (snd (prestart ex_failing))) =
     [Some ''a'', None, Some ''b'']"
    by (simp add: ex_failing_def ex_defs ex_hook_defs prestart_defs events_def)
  have b1: "\<not> allocTerminal ex_disk_full"
    by (simp add: ex_disk_full_def ex_defs)
  have b2: "runnerHooks ex_disk_full = [] @ ex_hook_a # [ex_hook_c]"
    by (simp add: ex_disk_full_def ex_defs)
  have b3: "prestart_loop [] ex_disk_full = (Returned None, ex_disk_full)"
    by simp
  have b4: "Prestart ex_hook_a = Some ?g"
    by (simp add: ex_hook_defs ex_defs)
  have b5: "\<not> prestart_done ex_disk_full (Name ex_hook_a)"
    by (simp add: ex_disk_full_def ex_defs ex_hook_defs prestart_defs)
  have b6: "?g (ctx ex_disk_full) (prestart_request ex_disk_full) =
      Inr \<lparr>Env = [''K'' \<mapsto> ''V''], HookData = Some ''d'', Done = True\<rparr>"
    by simp
  have b7: "prestart_hook ex_hook_a ex_disk_full =
      (fst (prestart_hook ex_hook_a ex_disk_full), ?tr2)"
    by simp
  have b8: "last (trace ?tr2) = PersistCall (snapshot ?tr2)"
    by (simp add: ex_disk_full_def ex_defs ex_hook_defs prestart_defs)
  have b9: "persistResult ex_disk_full (snapshot ?tr2) = Some (ErrorString ''disk full'')"
    by (simp add: ex_disk_full_def ex_defs)
  have ev2: "map hook_called (events ex_disk_full (snd (prestart ex_disk_full))) =
      [Some ''a'', None]"
    by (simp add: ex_disk_full_def ex_defs ex_hook_defs prestart_defs events_def)
  note t1 = prestart_fail_fast [OF a1 a2 a3 a4 a5]
  note t2 = prestart_fail_fast [OF b1 b2 b3 b4 b5]
  from t1 a6 have r1: "fst (prestart ex_failing) =
     Returned (Some (RecoverableError
       (''prestart hook '' @ [CHR 0x22] @ ''b'' @ [CHR 0x22] @ '' failed: boom'')
       (ErrorString ''boom'')))"
    by (simp add: WrapRecoverable_def fmt_q_def quote_escapes_def fmt_v_def ex_hook_defs ex_defs)
  from t2 b6 b7 b8 b9 have r2: "prestart ex_disk_full =
     (Returned (Some (ErrorString ''disk full'')), ?tr2)"
    by blast
  from a1 a2 a3 a5 r1 ev1 b1 b2 b5 b8 b9 r2 ev2 show ?thesis by blast
qed

subsection \<open>The trace grows\<close>

lemma prestart_hook_trace:
  "prestart_hook hook tr = (r, tr') \<Longrightarrow> \<exists>evs. trace tr' = trace tr @ evs"
  by (auto simp: prestart_hook_def store_defs Let_def
      split: option.splits sum.splits if_splits prod.splits)

lemma prestart_loop_trace:
  "prestart_loop hooks tr = (out, tr') \<Longrightarrow> \<exists>evs. trace tr' = trace tr @ evs"
proof (induction hooks arbitrary: tr)
  case Nil
  then show ?case by simp
next
  case (Cons h hooks)
  obtain r tr1 where step: "prestart_hook h tr = (r, tr1)" by (cases "prestart_hook h tr")
  from prestart_hook_trace [OF step] obtain evs1 where e1: "trace tr1 = trace tr @ evs1" ..
  show ?case
  proof (cases r)
    case None
    with step Cons.prems have "prestart_loop hooks tr1 = (out, tr')" by simp
    from Cons.IH [OF this] e1 show ?thesis by auto
  next
    case (Some a)
    with step Cons.prems e1 show ?thesis by auto
  qed
qed

lemma store_hook_state_trace:
  "store_hook_state name orig resp tr = (x, tr') \<Longrightarrow> \<exists>evs. trace tr' = trace tr @ evs"
  by (auto simp: store_defs
      split: option.splits if_splits prod.splits)

lemma prestart_hook_calls:
  assumes "Prestart hook = Some f" and "\<not> prestart_done tr (Name hook)"
  shows "\<exists>evs. trace (snd (prestart_hook hook tr)) =
           trace tr @ PrestartCall (Name hook) (ctx tr) (prestart_request tr) # evs"
proof (cases "f (ctx tr) (prestart_request tr)")
  case (Inl err)
  with assms show ?thesis by (simp add: prestart_hook_def Let_def)
next
  case (Inr resp)
  let ?tr1 = "tr\<lparr>trace := trace tr @ [PrestartCall (Name hook) (ctx tr) (prestart_request tr)]\<rparr>"
  obtain x tr2 where st: "store_hook_state (Name hook)
      (case Hooks tr (Name hook) of None \<Rightarrow> None | Some p \<Rightarrow> p) resp ?tr1 = (x, tr2)"
    by (cases "store_hook_state (Name hook)
      (case Hooks tr (Name hook) of None \<Rightarrow> None | Some p \<Rightarrow> p) resp ?tr1")
  from store_hook_state_trace [OF st] obtain evs where "trace tr2 = trace ?tr1 @ evs" ..
  with assms Inr st show ?thesis
    by (cases x) (simp_all add: prestart_hook_def Let_def)
qed

lemma prestart_loop_calls_first:
  assumes "Prestart hook = Some f" and "\<not> prestart_done tr (Name hook)"
  shows "\<exists>evs. trace (snd (prestart_loop (hook # hooks) tr)) =
           trace tr @ PrestartCall (Name hook) (ctx tr) (prestart_request tr) # evs"
proof -
  obtain r tr1 where step: "prestart_hook hook tr = (r, tr1)"
    by (cases "prestart_hook hook tr")
  from prestart_hook_calls [OF assms] step obtain evs where
    e1: "trace tr1 = trace tr @ PrestartCall (Name hook) (ctx tr) (prestart_request tr) # evs"
    by auto
  show ?thesis
  proof (cases r)
    case (Some a)
    with step e1 show ?thesis by simp
  next
    case None
    obtain out tr2 where rest: "prestart_loop hooks tr1 = (out, tr2)"
      by (cases "prestart_loop hooks tr1")
    from prestart_loop_trace [OF rest] obtain evs2 where "trace tr2 = trace tr1 @ evs2" ..
    with None step e1 rest show ?thesis by simp
  qed
qed

subsection \<open>A response without hook data\<close>

lemma prestart_hook_nil_data:
  assumes "Prestart hook = Some f" and "\<not> prestart_done tr (Name hook)"
    and "f (ctx tr) (prestart_request tr) = Inr resp" and "HookData resp = None"
    and "prestart_hook hook tr = (r, tr')"
  shows "Hooks tr' (Name hook) \<noteq> None \<and>
         (Hooks tr (Name hook) = None \<longrightarrow>
            Hooks tr' = (Hooks tr)(Name hook \<mapsto> Some (length (heap tr))) \<and>
            heap tr' = heap tr @ [\<lparr>Data = None, PrestartDone = False\<rparr>]) \<and>
         (Hooks tr (Name hook) \<noteq> None \<longrightarrow> Hooks tr' = Hooks tr \<and> heap tr' = heap tr) \<and>
         \<not> prestart_done tr' (Name hook)"
  using assms
  by (auto simp: prestart_hook_def store_defs Let_def
        prestart_done_def HookState_Equal_def
        split: option.splits if_splits prod.splits)

text \<open>
  C10. When a hook that implements \<open>Prestart\<close> is called and succeeds with \<open>nil\<close> hook
  data, the local state map has an entry for the hook's name afterwards: a fresh, empty
  state if there was none, the same pointer to the same state otherwise. The \<open>Done\<close> flag
  of the response is not recorded, whatever it is: the entry is not done afterwards, and
  an iteration for the hook in the resulting state calls the hook again.
\<close>

theorem prestart_nil_hook_data:
  assumes "Prestart hook = Some f" and "\<not> prestart_done tr (Name hook)"
    and "f (ctx tr) (prestart_request tr) = Inr resp" and "HookData resp = None"
    and "prestart_hook hook tr = (r, tr')"
  shows "Hooks tr' (Name hook) \<noteq> None \<and>
         (Hooks tr (Name hook) = None \<longrightarrow>
            Hooks tr' = (Hooks tr)(Name hook \<mapsto> Some (length (heap tr))) \<and>
            heap tr' = heap tr @ [\<lparr>Data = None, PrestartDone = False\<rparr>]) \<and>
         (Hooks tr (Name hook) \<noteq> None \<longrightarrow> Hooks tr' = Hooks tr \<and> heap tr' = heap tr) \<and>
         \<not> prestart_done tr' (Name hook) \<and>
         PrestartCall (Name hook) (ctx tr') (prestart_request tr')
           \<in> set (events tr' (snd (prestart_hook hook tr')))"
proof -
  note st = prestart_hook_nil_data [OF assms]
  then have nd: "\<not> prestart_done tr' (Name hook)" by simp
  from prestart_hook_calls [OF assms(1) nd]
  have "PrestartCall (Name hook) (ctx tr') (prestart_request tr')
           \<in> set (events tr' (snd (prestart_hook hook tr')))"
    by (auto simp: events_def)
  with st show ?thesis by simp
qed

theorem prestart_nil_hook_data_witness:
  "\<not> prestart_done ex_no_data (Name ex_hook_c) \<and>
   Hooks ex_no_data (Name ex_hook_c) = None \<and>
   prestart_hook ex_hook_c ex_no_data = (None, snd (prestart ex_no_data)) \<and>
   Hooks (snd (prestart ex_no_data)) ''c'' = Some (Some 0) \<and>
   heap (snd (prestart ex_no_data)) = [\<lparr>Data = None, PrestartDone = False\<rparr>] \<and>
   \<not> prestart_done (snd (prestart ex_no_data)) ''c'' \<and>
   PrestartCall ''c'' (ctx (snd (prestart ex_no_data)))
       (prestart_request (snd (prestart ex_no_data)))
     \<in> set (events (snd (prestart ex_no_data))
              (snd (prestart_hook ex_hook_c (snd (prestart ex_no_data))))) \<and>
   map hook_called (events ex_no_data (snd (prestart ex_no_data))) = [Some ''c'', None] \<and>
   map hook_called
     (events (snd (prestart ex_no_data)) (snd (prestart (snd (prestart ex_no_data))))) =
     [Some ''c'']"
proof -
  let ?f = "\<lambda>c req. Inr \<lparr>Env = Map.empty, HookData = None, Done = True\<rparr>
              :: error + TaskPrestartResponse"
  let ?tr' = "snd (prestart ex_no_data)"
  have h1: "Prestart ex_hook_c = Some ?f"
    by (simp add: ex_hook_defs ex_defs)
  have h2: "\<not> prestart_done ex_no_data (Name ex_hook_c)"
    by (simp add: ex_no_data_def ex_defs ex_hook_defs prestart_defs)
  have h3: "?f (ctx ex_no_data) (prestart_request ex_no_data) =
      Inr \<lparr>Env = Map.empty, HookData = None, Done = True\<rparr>"
    by simp
  have h4: "HookData \<lparr>Env = Map.empty, HookData = None, Done = True\<rparr> = None"
    by simp
  have h5: "prestart_hook ex_hook_c ex_no_data = (None, ?tr')"
    by (simp add: ex_no_data_def ex_defs ex_hook_defs prestart_defs)
  have h6: "Hooks ex_no_data (Name ex_hook_c) = None"
    by (simp add: ex_no_data_def ex_defs)
  have n: "Name ex_hook_c = ''c''" "length (heap ex_no_data) = 0" "heap ex_no_data = []"
    by (simp_all add: ex_no_data_def ex_hook_defs ex_defs)
  have ev1: "map hook_called (events ex_no_data ?tr') = [Some ''c'', None]"
    by (simp add: ex_no_data_def ex_defs ex_hook_defs prestart_defs events_def)
  have ev2: "map hook_called (events ?tr' (snd (prestart ?tr'))) = [Some ''c'']"
    by (simp add: ex_no_data_def ex_defs ex_hook_defs prestart_defs events_def)
  from prestart_nil_hook_data [OF h1 h2 h3 h4 h5] h6 n
  have "Hooks ?tr' ''c'' = Some (Some 0) \<and>
        heap ?tr' = [\<lparr>Data = None, PrestartDone = False\<rparr>] \<and>
        \<not> prestart_done ?tr' ''c'' \<and>
        PrestartCall ''c'' (ctx ?tr') (prestart_request ?tr')
          \<in> set (events ?tr' (snd (prestart_hook ex_hook_c ?tr')))"
    by simp
  with h2 h5 h6 ev1 ev2 show ?thesis by blast
qed

subsection \<open>Persisting a changed state\<close>

text \<open>
  An iteration for a hook whose name has an entry in the local state map never calls
  the durable save, whatever the hook returns.
\<close>

lemma prestart_hook_saves_only_new_entry:
  assumes "Hooks tr (Name hook) \<noteq> None" and "prestart_hook hook tr = (r, tr')"
  shows "filter is_persist (events tr tr') = []"
  using assms
  by (auto simp: prestart_hook_def store_defs Let_def
      HookState_Equal_def events_def
      split: option.splits sum.splits if_splits prod.splits)

text \<open>
  C2. The runner \<open>ex_stale\<close> holds the state \<open>{Data: old, PrestartDone: false}\<close> for hook
  \<open>h\<close>, and \<open>h\<close> answers with data \<open>new\<close> and \<open>Done\<close>. \<open>prestart\<close> returns \<open>nil\<close>, the state of
  \<open>h\<close> in the map is now \<open>{Data: new, PrestartDone: true}\<close>, and the only event is the call
  of the hook: the changed map is not saved. The state read before the call and the state
  written after it are one object, so the comparison that decides on saving compares the
  new state with itself.
\<close>

theorem prestart_change_not_persisted:
  "Hooks ex_stale ''h'' = Some (Some 0) \<and>
   heap ex_stale = [\<lparr>Data = Some ''old'', PrestartDone = False\<rparr>] \<and>
   fst (prestart ex_stale) = Returned None \<and>
   Hooks (snd (prestart ex_stale)) ''h'' = Some (Some 0) \<and>
   heap (snd (prestart ex_stale)) = [\<lparr>Data = Some ''new'', PrestartDone = True\<rparr>] \<and>
   map hook_called (events ex_stale (snd (prestart ex_stale))) = [Some ''h''] \<and>
   filter is_persist (events ex_stale (snd (prestart ex_stale))) = []"
  by (simp add: ex_stale_def ex_defs prestart_defs events_def)

subsection \<open>Environment entries of earlier hooks\<close>

lemma prestart_hook_env:
  assumes "prestart_hook hook tr = (r, tr')" and "envBuilder tr k = Some v"
  shows "envBuilder tr' k \<noteq> None \<and>
         (\<not> returns_entry k hook tr \<longrightarrow> envBuilder tr' k = Some v)"
  using assms
  by (auto simp: prestart_hook_def store_defs Let_def returns_entry_def
        SetGenericEnv_def map_add_def
        split: option.splits sum.splits if_splits prod.splits)

lemma prestart_loop_env:
  assumes "prestart_loop hooks tr = (out, tr')" and "envBuilder tr k = Some v"
  shows "envBuilder tr' k \<noteq> None \<and>
         (\<not> overridden k hooks tr \<longrightarrow> envBuilder tr' k = Some v)"
  using assms
proof (induction hooks arbitrary: tr v)
  case Nil
  then show ?case by simp
next
  case (Cons h hooks)
  obtain r tr1 where step: "prestart_hook h tr = (r, tr1)" by (cases "prestart_hook h tr")
  note one = prestart_hook_env [OF step Cons.prems(2)]
  show ?case
  proof (cases r)
    case (Some a)
    with step Cons.prems(1) have "tr' = tr1" by simp
    with one step Some show ?thesis by simp
  next
    case None
    with step Cons.prems(1) have rest: "prestart_loop hooks tr1 = (out, tr')" by simp
    from one obtain v1 where v1: "envBuilder tr1 k = Some v1" by auto
    note ih1 = Cons.IH [OF rest v1]
    have "\<not> overridden k (h # hooks) tr \<longrightarrow> envBuilder tr' k = Some v"
    proof
      assume quiet: "\<not> overridden k (h # hooks) tr"
      with step None have q1: "\<not> returns_entry k h tr" and q2: "\<not> overridden k hooks tr1"
        by simp_all
      from one q1 have "envBuilder tr1 k = Some v" by simp
      from Cons.IH [OF rest this] q2 show "envBuilder tr' k = Some v" by simp
    qed
    with ih1 show ?thesis by simp
  qed
qed

text \<open>
  Hooks that never return an entry for \<open>k\<close>, whatever they are asked, do not override
  it in any run.
\<close>

lemma silent_not_overridden:
  assumes "\<forall>h\<in>set hooks. \<forall>g c q resp.
             Prestart h = Some g \<longrightarrow> g c q = Inr resp \<longrightarrow> Env resp k = None"
  shows "\<not> overridden k hooks tr"
  using assms
proof (induction hooks arbitrary: tr)
  case Nil
  then show ?case by simp
next
  case (Cons h hooks)
  have "\<not> returns_entry k h tr"
    using Cons.prems by (auto simp: returns_entry_def split: option.splits sum.splits)
  moreover have "\<And>tr1. \<not> overridden k hooks tr1"
    using Cons by simp
  ultimately show ?case by (simp split: prod.splits option.splits)
qed

lemma prestart_hook_merges:
  assumes "Prestart hook = Some f" and "\<not> prestart_done tr (Name hook)"
    and "f (ctx tr) (prestart_request tr) = Inr resp" and "Env resp k = Some v"
    and "prestart_hook hook tr = (None, tr')"
  shows "envBuilder tr' k = Some v"
  using assms
  by (auto simp: prestart_hook_def Let_def SetGenericEnv_def split: prod.splits option.splits)

text \<open>
  C4, as stated, fails when a hook in between sets the same variable. In \<open>ex_override\<close>
  hook \<open>a\<close> returns \<open>K = V\<close> and hook \<open>w\<close>, which runs next and sees \<open>K = V\<close>, returns
  \<open>K = W\<close>; hook \<open>c\<close>, later than \<open>a\<close>, sees \<open>K = W\<close> in its request.
\<close>

theorem prestart_env_override_counterexample:
  "runnerHooks ex_override = [ex_hook_a, ex_hook_w, ex_hook_c] \<and>
   fst (prestart ex_override) = Returned None \<and>
   List.map_filter (env_seen ''K'') (events ex_override (snd (prestart ex_override))) =
     [(''a'', None), (''w'', Some ''V''), (''c'', Some ''W'')]"
  by (simp add: ex_override_def ex_defs ex_hook_defs prestart_defs events_def List.map_filter_simps)

text \<open>
  C4, amended. Let a hook \<open>hookA\<close> be called and return an entry \<open>k = v\<close>, and let the loop
  go on through the hooks \<open>mid\<close> and reach a hook \<open>hookB\<close> that implements \<open>Prestart\<close> and is
  not done. The entry is in the environment builder as soon as the iteration of \<open>hookA\<close>
  ends. \<open>hookB\<close> is called with the request built from the builder at that moment; in its
  environment \<open>k\<close> has a value, and the value is \<open>v\<close> unless a hook of \<open>mid\<close> was called in
  this run and returned an entry for \<open>k\<close>. A hook of \<open>mid\<close> that is skipped overrides
  nothing, whatever it would return.
\<close>

theorem prestart_env_visible:
  assumes "Prestart hookA = Some f" and "\<not> prestart_done tr (Name hookA)"
    and "f (ctx tr) (prestart_request tr) = Inr resp" and "Env resp k = Some v"
    and "prestart_loop (hookA # mid) tr = (Returned None, tr2)"
    and "Prestart hookB = Some g" and "\<not> prestart_done tr2 (Name hookB)"
  shows "envBuilder (snd (prestart_hook hookA tr)) k = Some v \<and>
         (\<exists>evs. events tr (snd (prestart_loop (hookA # mid @ hookB # post) tr)) =
            events tr tr2 @ PrestartCall (Name hookB) (ctx tr2) (prestart_request tr2) # evs) \<and>
         TaskEnv (prestart_request tr2) k \<noteq> None \<and>
         (\<not> overridden k mid (snd (prestart_hook hookA tr)) \<longrightarrow>
            TaskEnv (prestart_request tr2) k = Some v)"
proof -
  obtain r tr1 where step: "prestart_hook hookA tr = (r, tr1)"
    by (cases "prestart_hook hookA tr")
  have r: "r = None"
  proof (cases r)
    case None
    then show ?thesis .
  next
    case (Some a)
    with step assms(5) have "a = Returned None" by simp
    with step Some prestart_hook_abort_not_nil show ?thesis by blast
  qed
  with step assms(5) have mid: "prestart_loop mid tr1 = (Returned None, tr2)" by simp
  from step r have step': "prestart_hook hookA tr = (None, tr1)" by simp
  note merged = prestart_hook_merges [OF assms(1,2,3,4) step']
  note later = prestart_loop_env [OF mid merged]
  have run: "prestart_loop (hookA # mid @ hookB # post) tr = prestart_loop (hookB # post) tr2"
    using prestart_loop_append [OF assms(5), of "hookB # post"] by simp
  from prestart_loop_trace [OF assms(5)] obtain evs0 where
    e0: "trace tr2 = trace tr @ evs0" ..
  from prestart_loop_calls_first [OF assms(6,7), of post] obtain evs where
    e1: "trace (snd (prestart_loop (hookB # post) tr2)) =
       trace tr2 @ PrestartCall (Name hookB) (ctx tr2) (prestart_request tr2) # evs" ..
  have called: "\<exists>evs. events tr (snd (prestart_loop (hookA # mid @ hookB # post) tr)) =
            events tr tr2 @ PrestartCall (Name hookB) (ctx tr2) (prestart_request tr2) # evs"
    using run e0 e1 by (simp add: events_def)
  from merged step' have first: "envBuilder (snd (prestart_hook hookA tr)) k = Some v"
    by simp
  from step' have tr1: "snd (prestart_hook hookA tr) = tr1" by simp
  from first called later tr1 show ?thesis
    by (simp add: prestart_request_def Build_def)
qed

theorem prestart_env_visible_witness:
  "\<not> prestart_done ex_skipped (Name ex_hook_a) \<and>
   prestart_loop (ex_hook_a # [ex_hook_w]) ex_skipped =
     (Returned None, snd (prestart_loop (ex_hook_a # [ex_hook_w]) ex_skipped)) \<and>
   \<not> prestart_done (snd (prestart_loop (ex_hook_a # [ex_hook_w]) ex_skipped)) (Name ex_hook_c) \<and>
   \<not> overridden ''K'' [ex_hook_w] (snd (prestart_hook ex_hook_a ex_skipped)) \<and>
   envBuilder (snd (prestart_hook ex_hook_a ex_skipped)) ''K'' = Some ''V'' \<and>
   TaskEnv (prestart_request (snd (prestart_loop (ex_hook_a # [ex_hook_w]) ex_skipped))) ''K'' =
     Some ''V'' \<and>
   List.map_filter (env_seen ''K'') (events ex_skipped (snd (prestart ex_skipped))) =
     [(''a'', None), (''c'', Some ''V'')] \<and>
   \<not> prestart_done ex_visible (Name ex_hook_a) \<and>
   prestart_loop (ex_hook_a # [ex_hook_c]) ex_visible =
     (Returned None, snd (prestart_loop (ex_hook_a # [ex_hook_c]) ex_visible)) \<and>
   \<not> prestart_done (snd (prestart_loop (ex_hook_a # [ex_hook_c]) ex_visible)) (Name ex_hook_w) \<and>
   \<not> overridden ''K'' [ex_hook_c] (snd (prestart_hook ex_hook_a ex_visible)) \<and>
   TaskEnv (prestart_request (snd (prestart_loop (ex_hook_a # [ex_hook_c]) ex_visible))) ''K'' =
     Some ''V'' \<and>
   List.map_filter (env_seen ''K'') (events ex_visible (snd (prestart ex_visible))) =
     [(''a'', None), (''c'', Some ''V''), (''w'', Some ''V'')]"
proof -
  let ?f = "\<lambda>c req. Inr \<lparr>Env = [''K'' \<mapsto> ''V''], HookData = Some ''d'', Done = True\<rparr>
              :: error + TaskPrestartResponse"
  let ?g = "\<lambda>c req. Inr \<lparr>Env = [''K'' \<mapsto> ''W''], HookData = None, Done = False\<rparr>
              :: error + TaskPrestartResponse"
  let ?h = "\<lambda>c req. Inr \<lparr>Env = Map.empty, HookData = None, Done = True\<rparr>
              :: error + TaskPrestartResponse"
  let ?s2 = "snd (prestart_loop (ex_hook_a # [ex_hook_w]) ex_skipped)"
  let ?v2 = "snd (prestart_loop (ex_hook_a # [ex_hook_c]) ex_visible)"
  have h1: "Prestart ex_hook_a = Some ?f"
    by (simp add: ex_hook_defs ex_defs)
  have h4: "Env \<lparr>Env = [''K'' \<mapsto> ''V''], HookData = Some ''d'', Done = True\<rparr> ''K'' = Some ''V''"
    by simp
  have hw: "Prestart ex_hook_w = Some ?g"
    by (simp add: ex_hook_defs ex_defs)
  have hc: "Prestart ex_hook_c = Some ?h"
    by (simp add: ex_hook_defs ex_defs)
  have s2: "\<not> prestart_done ex_skipped (Name ex_hook_a)"
    by (simp add: ex_skipped_def ex_defs ex_hook_defs prestart_defs)
  have s3: "?f (ctx ex_skipped) (prestart_request ex_skipped) =
      Inr \<lparr>Env = [''K'' \<mapsto> ''V''], HookData = Some ''d'', Done = True\<rparr>"
    by simp
  have s5: "prestart_loop (ex_hook_a # [ex_hook_w]) ex_skipped = (Returned None, ?s2)"
    by (simp add: ex_skipped_def ex_defs ex_hook_defs prestart_defs)
  have s7: "\<not> prestart_done ?s2 (Name ex_hook_c)"
    by (simp add: ex_skipped_def ex_defs ex_hook_defs prestart_defs)
  have s8: "\<not> overridden ''K'' [ex_hook_w] (snd (prestart_hook ex_hook_a ex_skipped))"
    by (simp add: returns_entry_def ex_skipped_def ex_defs ex_hook_defs prestart_defs)
  have sseen: "List.map_filter (env_seen ''K'') (events ex_skipped (snd (prestart ex_skipped))) =
     [(''a'', None), (''c'', Some ''V'')]"
    by (simp add: ex_skipped_def ex_defs ex_hook_defs prestart_defs events_def
        List.map_filter_simps)
  have v2: "\<not> prestart_done ex_visible (Name ex_hook_a)"
    by (simp add: ex_visible_def ex_defs ex_hook_defs prestart_defs)
  have v3: "?f (ctx ex_visible) (prestart_request ex_visible) =
      Inr \<lparr>Env = [''K'' \<mapsto> ''V''], HookData = Some ''d'', Done = True\<rparr>"
    by simp
  have v5: "prestart_loop (ex_hook_a # [ex_hook_c]) ex_visible = (Returned None, ?v2)"
    by (simp add: ex_visible_def ex_defs ex_hook_defs prestart_defs)
  have v7: "\<not> prestart_done ?v2 (Name ex_hook_w)"
    by (simp add: ex_visible_def ex_defs ex_hook_defs prestart_defs)
  have v8: "\<not> overridden ''K'' [ex_hook_c] (snd (prestart_hook ex_hook_a ex_visible))"
    by (simp add: returns_entry_def ex_visible_def ex_defs ex_hook_defs prestart_defs)
  have vseen: "List.map_filter (env_seen ''K'') (events ex_visible (snd (prestart ex_visible))) =
     [(''a'', None), (''c'', Some ''V''), (''w'', Some ''V'')]"
    by (simp add: ex_visible_def ex_defs ex_hook_defs prestart_defs events_def
        List.map_filter_simps)
  from prestart_env_visible [OF h1 s2 s3 h4 s5 hc s7] s8
  have rs: "envBuilder (snd (prestart_hook ex_hook_a ex_skipped)) ''K'' = Some ''V'' \<and>
        TaskEnv (prestart_request ?s2) ''K'' = Some ''V''"
    by blast
  from prestart_env_visible [OF h1 v2 v3 h4 v5 hw v7] v8
  have rv: "TaskEnv (prestart_request ?v2) ''K'' = Some ''V''"
    by blast
  from s2 s5 s7 s8 rs sseen v2 v5 v7 v8 rv vseen show ?thesis by blast
qed

subsection \<open>Best-effort passes: update and kill\<close>

lemma map_filter_append:
  "List.map_filter f (xs @ ys) = List.map_filter f xs @ List.map_filter f ys"
  by (simp add: List.map_filter_def)

lemma update_events_trace:
  "update_events (tr\<lparr>trace := t\<rparr>) = update_events tr"
  by (rule ext) (simp add: update_events_def split: option.splits)

lemma updateHooks_loop_events:
  "updateHooks_loop hooks tr = tr\<lparr>trace := trace tr @ concat (map (update_events tr) hooks)\<rparr>"
proof (induction hooks arbitrary: tr)
  case Nil
  then show ?case by simp
next
  case (Cons h hooks)
  show ?case
    by (simp add: Cons.IH update_events_trace update_events_def [of tr h] Let_def
        split: option.splits)
qed

lemma called_update_events:
  "List.map_filter hook_called (concat (map (update_events tr) hooks)) =
   map Name (filter (\<lambda>h. Update h \<noteq> None) hooks)"
  by (induction hooks)
     (auto simp: update_events_def List.map_filter_simps map_filter_append
       split: option.splits)

text \<open>
  C6. \<open>updateHooks\<close> adds to the trace, for each hook of the list in order, what a
  best-effort pass is expected to add: nothing for a hook without \<open>Update\<close>, and otherwise
  one call with the current secret token, followed by one error log with the hook's name
  and the error when the call fails. The hooks called are the hooks that implement
  \<open>Update\<close>, each once, in list order, whatever the earlier hooks returned. Nothing else
  of the task runner changes, and \<open>updateHooks\<close> returns no error.
\<close>

theorem updateHooks_best_effort:
  "updateHooks tr =
     tr\<lparr>trace := trace tr @ concat (map (update_events tr) (runnerHooks tr))\<rparr> \<and>
   List.map_filter hook_called (events tr (updateHooks tr)) =
     map Name (filter (\<lambda>h. Update h \<noteq> None) (runnerHooks tr))"
  by (simp add: updateHooks_def updateHooks_loop_events events_def called_update_events)

theorem updateHooks_best_effort_witness:
  "events ex_notify (updateHooks ex_notify) =
     [UpdateCall ''x'' (WithCancel True) (TaskUpdateRequest ''s.token''),
      LogError ''update hook failed'' ''x'' (ErrorString ''down''),
      UpdateCall ''y'' (WithCancel True) (TaskUpdateRequest ''s.token'')] \<and>
   List.map_filter hook_called (events ex_notify (updateHooks ex_notify)) = [''x'', ''y'']"
  using updateHooks_best_effort [of ex_notify]
  by (simp add: events_def update_events_def ex_notify_def ex_defs ex_hook_defs)

lemma kill_loop_events:
  "kill_loop hooks tr = tr\<lparr>trace := trace tr @ concat (map kill_events hooks)\<rparr>"
proof (induction hooks arbitrary: tr)
  case Nil
  then show ?case by simp
next
  case (Cons h hooks)
  show ?case
    by (simp add: Cons.IH kill_events_def [of h] Let_def split: option.splits)
qed

lemma called_kill_events:
  "List.map_filter hook_called (concat (map kill_events hooks)) =
   map Name (filter (\<lambda>h. Kill h \<noteq> None) hooks)"
  by (induction hooks)
     (auto simp: kill_events_def List.map_filter_simps map_filter_append
       split: option.splits)

lemma kill_events_background:
  "List.map_filter kill_context (concat (map kill_events hooks)) =
   map (\<lambda>h. Background) (filter (\<lambda>h. Kill h \<noteq> None) hooks)"
  by (induction hooks)
     (auto simp: kill_events_def List.map_filter_simps map_filter_append
       split: option.splits)

text \<open>
  C8. \<open>kill\<close> adds to the trace, for each hook of the list in order, one call for a hook
  that implements \<open>Kill\<close>, followed by one error log with the hook's name when the call
  fails. Every call is made with the background context, which is never canceled, and
  the events are the same whatever the task runner's own context is, canceled or not.
  Nothing else of the task runner changes, and \<open>kill\<close> returns no error.
\<close>

theorem kill_best_effort:
  "kill tr = tr\<lparr>trace := trace tr @ concat (map kill_events (runnerHooks tr))\<rparr> \<and>
   List.map_filter hook_called (events tr (kill tr)) =
     map Name (filter (\<lambda>h. Kill h \<noteq> None) (runnerHooks tr)) \<and>
   List.map_filter kill_context (events tr (kill tr)) =
     map (\<lambda>h. Background) (filter (\<lambda>h. Kill h \<noteq> None) (runnerHooks tr)) \<and>
   \<not> canceled Background \<and>
   events (tr\<lparr>ctx := c\<rparr>) (kill (tr\<lparr>ctx := c\<rparr>)) = events tr (kill tr)"
  by (simp add: kill_def kill_loop_events events_def called_kill_events kill_events_background)

theorem kill_best_effort_witness:
  "canceled (ctx ex_notify) \<and>
   events ex_notify (kill ex_notify) =
     [KillCall ''x'' Background TaskKillRequest,
      LogError ''kill hook failed'' ''x'' (ErrorString ''down''),
      KillCall ''y'' Background TaskKillRequest] \<and>
   List.map_filter kill_context (events ex_notify (kill ex_notify)) = [Background, Background]"
  using kill_best_effort [of ex_notify "ctx ex_notify"]
  by (simp add: events_def kill_events_def ex_notify_def ex_defs ex_hook_defs)

subsection \<open>Fail-fast passes: post-start and stop\<close>

lemma poststart_ok_trace: "poststart_ok (tr\<lparr>trace := t\<rparr>) = poststart_ok tr"
  by (rule ext) (simp add: poststart_ok_def split: option.splits)

lemma poststart_call_trace: "poststart_call (tr\<lparr>trace := t\<rparr>) = poststart_call tr"
  by (rule ext) (simp add: poststart_call_def)

lemma poststart_loop_ok:
  "list_all (poststart_ok tr) hooks \<Longrightarrow>
   poststart_loop hooks tr =
     (None, tr\<lparr>trace := trace tr @
               map (poststart_call tr) (filter (\<lambda>h. Poststart h \<noteq> None) hooks)\<rparr>)"
proof (induction hooks arbitrary: tr)
  case Nil
  then show ?case by simp
next
  case (Cons h hooks)
  then show ?case
    by (auto simp: poststart_ok_trace poststart_call_trace poststart_ok_def [of tr h]
        poststart_call_def [of tr h] Let_def split: option.splits)
qed

lemma poststart_loop_fails:
  assumes "list_all (poststart_ok tr) pre" and "Poststart hook = Some f"
    and "f (ctx tr) TaskPoststartRequest = Some err"
  shows "poststart_loop (pre @ hook # post) tr =
     (Some (ErrorString (''poststart hook '' @ fmt_q (Name hook) @ '' failed: '' @ fmt_v err)),
      tr\<lparr>trace := trace tr @
             map (poststart_call tr) (filter (\<lambda>h. Poststart h \<noteq> None) pre) @
             [poststart_call tr hook]\<rparr>)"
  using assms
proof (induction pre arbitrary: tr)
  case Nil
  then show ?case by (simp add: Let_def poststart_call_def)
next
  case (Cons h pre)
  then show ?case
    by (auto simp: poststart_ok_trace poststart_call_trace poststart_ok_def [of tr h]
        poststart_call_def [of tr h] Let_def split: option.splits)
qed

lemma stop_ok_trace: "stop_ok (tr\<lparr>trace := t\<rparr>) = stop_ok tr"
  by (rule ext) (simp add: stop_ok_def split: option.splits)

lemma stop_call_trace: "stop_call (tr\<lparr>trace := t\<rparr>) = stop_call tr"
  by (rule ext) (simp add: stop_call_def)

lemma stop_loop_ok:
  "list_all (stop_ok tr) hooks \<Longrightarrow>
   stop_loop hooks tr =
     (None, tr\<lparr>trace := trace tr @
               map (stop_call tr) (filter (\<lambda>h. Stop h \<noteq> None) hooks)\<rparr>)"
proof (induction hooks arbitrary: tr)
  case Nil
  then show ?case by simp
next
  case (Cons h hooks)
  then show ?case
    by (auto simp: stop_ok_trace stop_call_trace stop_ok_def [of tr h]
        stop_call_def [of tr h] Let_def split: option.splits)
qed

lemma stop_loop_fails:
  assumes "list_all (stop_ok tr) pre" and "Stop hook = Some f"
    and "f (ctx tr) TaskStopRequest = Some err"
  shows "stop_loop (pre @ hook # post) tr =
     (Some (ErrorString (''stop hook '' @ fmt_q (Name hook) @ '' failed: '' @ fmt_v err)),
      tr\<lparr>trace := trace tr @
             map (stop_call tr) (filter (\<lambda>h. Stop h \<noteq> None) pre) @
             [stop_call tr hook]\<rparr>)"
  using assms
proof (induction pre arbitrary: tr)
  case Nil
  then show ?case by (simp add: Let_def stop_call_def)
next
  case (Cons h pre)
  then show ?case
    by (auto simp: stop_ok_trace stop_call_trace stop_ok_def [of tr h]
        stop_call_def [of tr h] Let_def split: option.splits)
qed

text \<open>
  C7. \<open>poststart\<close> and \<open>stop\<close> call, in list order and with an empty request, the hooks
  that implement their capability. When no hook fails they return \<open>nil\<close>. At the first
  hook that fails they return a plain error, not a recoverable one, whose message holds
  the hook's name; the call of the failing hook is the last event, so no later hook is
  called. In both cases the task runner is as before but for the calls added to the
  trace: nothing is persisted and the environment builder is untouched.
\<close>

theorem poststart_stop_fail_fast:
  "(list_all (poststart_ok tr) (runnerHooks tr) \<longrightarrow>
      poststart tr =
        (None, tr\<lparr>trace := trace tr @
                  map (poststart_call tr) (filter (\<lambda>h. Poststart h \<noteq> None) (runnerHooks tr))\<rparr>)) \<and>
   (\<forall>pre hook post f err.
      runnerHooks tr = pre @ hook # post \<longrightarrow> list_all (poststart_ok tr) pre \<longrightarrow>
      Poststart hook = Some f \<longrightarrow> f (ctx tr) TaskPoststartRequest = Some err \<longrightarrow>
      poststart tr =
        (Some (ErrorString
           (''poststart hook '' @ fmt_q (Name hook) @ '' failed: '' @ fmt_v err)),
         tr\<lparr>trace := trace tr @
                map (poststart_call tr) (filter (\<lambda>h. Poststart h \<noteq> None) pre) @
                [poststart_call tr hook]\<rparr>) \<and>
      \<not> IsRecoverable (ErrorString
           (''poststart hook '' @ fmt_q (Name hook) @ '' failed: '' @ fmt_v err))) \<and>
   (list_all (stop_ok tr) (runnerHooks tr) \<longrightarrow>
      stop tr =
        (None, tr\<lparr>trace := trace tr @
                  map (stop_call tr) (filter (\<lambda>h. Stop h \<noteq> None) (runnerHooks tr))\<rparr>)) \<and>
   (\<forall>pre hook post f err.
      runnerHooks tr = pre @ hook # post \<longrightarrow> list_all (stop_ok tr) pre \<longrightarrow>
      Stop hook = Some f \<longrightarrow> f (ctx tr) TaskStopRequest = Some err \<longrightarrow>
      stop tr =
        (Some (ErrorString
           (''stop hook '' @ fmt_q (Name hook) @ '' failed: '' @ fmt_v err)),
         tr\<lparr>trace := trace tr @
                map (stop_call tr) (filter (\<lambda>h. Stop h \<noteq> None) pre) @
                [stop_call tr hook]\<rparr>) \<and>
      \<not> IsRecoverable (ErrorString
           (''stop hook '' @ fmt_q (Name hook) @ '' failed: '' @ fmt_v err)))"
proof -
  have p1: "list_all (poststart_ok tr) (runnerHooks tr) \<longrightarrow>
      poststart tr =
        (None, tr\<lparr>trace := trace tr @
                  map (poststart_call tr) (filter (\<lambda>h. Poststart h \<noteq> None) (runnerHooks tr))\<rparr>)"
    by (simp add: poststart_def poststart_loop_ok)
  have p2: "\<forall>pre hook post f err.
      runnerHooks tr = pre @ hook # post \<longrightarrow> list_all (poststart_ok tr) pre \<longrightarrow>
      Poststart hook = Some f \<longrightarrow> f (ctx tr) TaskPoststartRequest = Some err \<longrightarrow>
      poststart tr =
        (Some (ErrorString
           (''poststart hook '' @ fmt_q (Name hook) @ '' failed: '' @ fmt_v err)),
         tr\<lparr>trace := trace tr @
                map (poststart_call tr) (filter (\<lambda>h. Poststart h \<noteq> None) pre) @
                [poststart_call tr hook]\<rparr>) \<and>
      \<not> IsRecoverable (ErrorString
           (''poststart hook '' @ fmt_q (Name hook) @ '' failed: '' @ fmt_v err))"
    by (simp add: poststart_def poststart_loop_fails)
  have s1: "list_all (stop_ok tr) (runnerHooks tr) \<longrightarrow>
      stop tr =
        (None, tr\<lparr>trace := trace tr @
                  map (stop_call tr) (filter (\<lambda>h. Stop h \<noteq> None) (runnerHooks tr))\<rparr>)"
    by (simp add: stop_def stop_loop_ok)
  have s2: "\<forall>pre hook post f err.
      runnerHooks tr = pre @ hook # post \<longrightarrow> list_all (stop_ok tr) pre \<longrightarrow>
      Stop hook = Some f \<longrightarrow> f (ctx tr) TaskStopRequest = Some err \<longrightarrow>
      stop tr =
        (Some (ErrorString
           (''stop hook '' @ fmt_q (Name hook) @ '' failed: '' @ fmt_v err)),
         tr\<lparr>trace := trace tr @
                map (stop_call tr) (filter (\<lambda>h. Stop h \<noteq> None) pre) @
                [stop_call tr hook]\<rparr>) \<and>
      \<not> IsRecoverable (ErrorString
           (''stop hook '' @ fmt_q (Name hook) @ '' failed: '' @ fmt_v err))"
    by (simp add: stop_def stop_loop_fails)
  from p1 p2 s1 s2 show ?thesis by blast
qed

theorem poststart_stop_fail_fast_witness:
  "list_all (poststart_ok ex_quiet) (runnerHooks ex_quiet) \<and>
   poststart ex_quiet =
     (None, ex_quiet\<lparr>trace := [PoststartCall ''y'' (WithCancel False) TaskPoststartRequest]\<rparr>) \<and>
   list_all (stop_ok ex_quiet) (runnerHooks ex_quiet) \<and>
   stop ex_quiet =
     (None, ex_quiet\<lparr>trace := [StopCall ''y'' (WithCancel False) TaskStopRequest]\<rparr>) \<and>
   runnerHooks ex_notify =
     [ex_hook_a] @ ex_notify_hook ''x'' (Some (ErrorString ''down'')) # [ex_notify_hook ''y'' None] \<and>
   list_all (poststart_ok ex_notify) [ex_hook_a] \<and>
   poststart ex_notify =
     (Some (ErrorString (''poststart hook '' @ [CHR 0x22] @ ''x'' @ [CHR 0x22] @ '' failed: down'')),
      ex_notify\<lparr>trace := [PoststartCall ''x'' (WithCancel True) TaskPoststartRequest]\<rparr>) \<and>
   list_all (stop_ok ex_notify) [ex_hook_a] \<and>
   stop ex_notify =
     (Some (ErrorString (''stop hook '' @ [CHR 0x22] @ ''x'' @ [CHR 0x22] @ '' failed: down'')),
      ex_notify\<lparr>trace := [StopCall ''x'' (WithCancel True) TaskStopRequest]\<rparr>)"
proof -
  let ?x = "ex_notify_hook ''x'' (Some (ErrorString ''down''))"
  let ?y = "ex_notify_hook ''y'' None"
  have q1: "list_all (poststart_ok ex_quiet) (runnerHooks ex_quiet)"
    by (simp add: poststart_ok_def ex_quiet_def ex_defs ex_hook_defs)
  have q2: "list_all (stop_ok ex_quiet) (runnerHooks ex_quiet)"
    by (simp add: stop_ok_def ex_quiet_def ex_defs ex_hook_defs)
  have n1: "runnerHooks ex_notify = [ex_hook_a] @ ?x # [?y]"
    by (simp add: ex_notify_def ex_defs)
  have n2: "list_all (poststart_ok ex_notify) [ex_hook_a]"
    by (simp add: poststart_ok_def ex_defs ex_hook_defs)
  have n3: "list_all (stop_ok ex_notify) [ex_hook_a]"
    by (simp add: stop_ok_def ex_defs ex_hook_defs)
  have n4: "Poststart ?x = Some (\<lambda>c req. Some (ErrorString ''down''))"
    by (simp add: ex_defs)
  have n5: "Stop ?x = Some (\<lambda>c req. Some (ErrorString ''down''))"
    by (simp add: ex_defs)
  note t1 = poststart_stop_fail_fast [of ex_quiet]
  note t2 = poststart_stop_fail_fast [of ex_notify]
  from t1 q1 have r1: "poststart ex_quiet =
     (None, ex_quiet\<lparr>trace := [PoststartCall ''y'' (WithCancel False) TaskPoststartRequest]\<rparr>)"
    by (simp add: poststart_call_def ex_quiet_def ex_defs ex_hook_defs)
  from t1 q2 have r2: "stop ex_quiet =
     (None, ex_quiet\<lparr>trace := [StopCall ''y'' (WithCancel False) TaskStopRequest]\<rparr>)"
    by (simp add: stop_call_def ex_quiet_def ex_defs ex_hook_defs)
  from t2 n1 n2 n4 have "poststart ex_notify =
        (Some (ErrorString
           (''poststart hook '' @ fmt_q (Name ?x) @ '' failed: '' @ fmt_v (ErrorString ''down''))),
         ex_notify\<lparr>trace := trace ex_notify @
                map (poststart_call ex_notify) (filter (\<lambda>h. Poststart h \<noteq> None) [ex_hook_a]) @
                [poststart_call ex_notify ?x]\<rparr>)"
    by blast
  then have r3: "poststart ex_notify =
     (Some (ErrorString (''poststart hook '' @ [CHR 0x22] @ ''x'' @ [CHR 0x22] @ '' failed: down'')),
      ex_notify\<lparr>trace := [PoststartCall ''x'' (WithCancel True) TaskPoststartRequest]\<rparr>)"
    by (simp add: poststart_call_def fmt_q_def quote_escapes_def fmt_v_def ex_notify_def ex_defs ex_hook_defs)
  from t2 n1 n3 n5 have "stop ex_notify =
        (Some (ErrorString
           (''stop hook '' @ fmt_q (Name ?x) @ '' failed: '' @ fmt_v (ErrorString ''down''))),
         ex_notify\<lparr>trace := trace ex_notify @
                map (stop_call ex_notify) (filter (\<lambda>h. Stop h \<noteq> None) [ex_hook_a]) @
                [stop_call ex_notify ?x]\<rparr>)"
    by blast
  then have r4: "stop ex_notify =
     (Some (ErrorString (''stop hook '' @ [CHR 0x22] @ ''x'' @ [CHR 0x22] @ '' failed: down'')),
      ex_notify\<lparr>trace := [StopCall ''x'' (WithCancel True) TaskStopRequest]\<rparr>)"
    by (simp add: stop_call_def fmt_q_def quote_escapes_def fmt_v_def ex_notify_def ex_defs ex_hook_defs)
  from q1 q2 n1 n2 n3 r1 r2 r3 r4 show ?thesis by blast
qed

subsection \<open>The hook list\<close>

text \<open>
  C5. \<open>initHooks\<close> sets the hook list to the validation, task directory, artifact and
  shutdown delay hooks in this order, followed by the Vault hook exactly when the task
  has a Vault stanza, followed by the template hook exactly when the task's template
  list is not empty. When the constructors give the hooks different names, no name
  occurs twice in the list.
\<close>

theorem initHooks_list:
  "runnerHooks (initHooks c tr) =
     [newValidateHook c, newTaskDirHook c, newArtifactHook c,
      newShutdownDelayHook c (ShutdownDelay (tr_Task tr))] @
     (case Vault (tr_Task tr) of None \<Rightarrow> [] | Some v \<Rightarrow> [newVaultHook c v]) @
     (if Templates (tr_Task tr) = [] then []
      else [newTemplateHook c (Templates (tr_Task tr))]) \<and>
   ((\<forall>v ts. distinct (map Name
        [newValidateHook c, newTaskDirHook c, newArtifactHook c,
         newShutdownDelayHook c (ShutdownDelay (tr_Task tr)),
         newVaultHook c v, newTemplateHook c ts])) \<longrightarrow>
    distinct (map Name (runnerHooks (initHooks c tr))))"
proof -
  have list: "runnerHooks (initHooks c tr) =
     [newValidateHook c, newTaskDirHook c, newArtifactHook c,
      newShutdownDelayHook c (ShutdownDelay (tr_Task tr))] @
     (case Vault (tr_Task tr) of None \<Rightarrow> [] | Some v \<Rightarrow> [newVaultHook c v]) @
     (if Templates (tr_Task tr) = [] then []
      else [newTemplateHook c (Templates (tr_Task tr))])"
    by (simp add: initHooks_def Let_def split: option.splits)
  have once: "(\<forall>v ts. distinct (map Name
        [newValidateHook c, newTaskDirHook c, newArtifactHook c,
         newShutdownDelayHook c (ShutdownDelay (tr_Task tr)),
         newVaultHook c v, newTemplateHook c ts])) \<longrightarrow>
    distinct (map Name (runnerHooks (initHooks c tr)))"
  proof
    assume names: "\<forall>v ts. distinct (map Name
        [newValidateHook c, newTaskDirHook c, newArtifactHook c,
         newShutdownDelayHook c (ShutdownDelay (tr_Task tr)),
         newVaultHook c v, newTemplateHook c ts])"
    obtain v where v: "Vault (tr_Task tr) = None \<or> Vault (tr_Task tr) = Some v"
      by (cases "Vault (tr_Task tr)") auto
    from names have "distinct (map Name
        [newValidateHook c, newTaskDirHook c, newArtifactHook c,
         newShutdownDelayHook c (ShutdownDelay (tr_Task tr)),
         newVaultHook c v, newTemplateHook c (Templates (tr_Task tr))])"
      by blast
    with v list show "distinct (map Name (runnerHooks (initHooks c tr)))"
      by auto
  qed
  from list once show ?thesis by blast
qed

theorem initHooks_list_witness:
  "(\<forall>v ts. distinct (map Name
        [newValidateHook ex_constructors, newTaskDirHook ex_constructors,
         newArtifactHook ex_constructors,
         newShutdownDelayHook ex_constructors (ShutdownDelay ex_task_full),
         newVaultHook ex_constructors v, newTemplateHook ex_constructors ts])) \<and>
   map Name (runnerHooks (initHooks ex_constructors (ex_runner []))) =
     [''validate'', ''task_dir'', ''artifacts'', ''shutdown-delay''] \<and>
   map Name (runnerHooks (initHooks ex_constructors (ex_runner []\<lparr>tr_Task := ex_task_full\<rparr>))) =
     [''validate'', ''task_dir'', ''artifacts'', ''shutdown-delay'', ''vault'', ''template''] \<and>
   distinct (map Name (runnerHooks (initHooks ex_constructors (ex_runner []\<lparr>tr_Task := ex_task_full\<rparr>))))"
proof -
  have d: "\<forall>v ts. distinct (map Name
        [newValidateHook ex_constructors, newTaskDirHook ex_constructors,
         newArtifactHook ex_constructors,
         newShutdownDelayHook ex_constructors (ShutdownDelay ex_task_full),
         newVaultHook ex_constructors v, newTemplateHook ex_constructors ts])"
    by (simp add: ex_constructors_def ex_defs)
  have t: "tr_Task (ex_runner []\<lparr>tr_Task := ex_task_full\<rparr>) = ex_task_full"
    by simp
  note full = initHooks_list [of ex_constructors "ex_runner []\<lparr>tr_Task := ex_task_full\<rparr>"]
  note bare = initHooks_list [of ex_constructors "ex_runner []"]
  from bare have b: "map Name (runnerHooks (initHooks ex_constructors (ex_runner []))) =
     [''validate'', ''task_dir'', ''artifacts'', ''shutdown-delay'']"
    by (simp add: ex_constructors_def ex_defs)
  from full have f: "map Name (runnerHooks (initHooks ex_constructors (ex_runner []\<lparr>tr_Task := ex_task_full\<rparr>))) =
     [''validate'', ''task_dir'', ''artifacts'', ''shutdown-delay'', ''vault'', ''template'']"
    by (simp add: ex_constructors_def ex_task_full_def ex_defs)
  from full [unfolded t] d
  have "distinct (map Name (runnerHooks (initHooks ex_constructors (ex_runner []\<lparr>tr_Task := ex_task_full\<rparr>))))"
    by blast
  with d b f show ?thesis by blast
qed

end
